theory Spec2Isabelle
  imports Complex_Main "HOL-Library.AList" "HOL-Library.Sublist" "HOL-Library.Multiset"
begin

section \<open>Common Python notions\<close>

text \<open>
  Exceptions of the Python runtime that the two scripts can meet, as values.
\<close>

datatype error = ValueError | KeyError | ZeroDivisionError | IsADirectoryError | FileNotFoundError

text \<open>
  \<open>str(n)\<close> for a Python int, as the f-strings of both scripts produce it: decimal digits,
  most significant first, with a minus sign for a negative value.
\<close>

definition digit_char :: "nat \<Rightarrow> char" where
  "digit_char d = ''0123456789'' ! d"

fun str_nat :: "nat \<Rightarrow> string" where
  "str_nat n = (if n < 10 then [digit_char n] else str_nat (n div 10) @ [digit_char (n mod 10)])"

declare str_nat.simps [simp del]

definition str_int :: "int \<Rightarrow> string" where
  "str_int i = (if i < 0 then ''-'' @ str_nat (nat (- i)) else str_nat (nat i))"

text \<open>\<open>range(n)\<close> for a Python int \<open>n\<close>: empty when \<open>n \<le> 0\<close>.\<close>

definition py_range :: "int \<Rightarrow> int list" where
  "py_range n = map int [0..<nat n]"

text \<open>\<open>s.startswith(p)\<close>.\<close>

definition startswith :: "string \<Rightarrow> string \<Rightarrow> bool" where
  "startswith s p = prefix p s"

section \<open>environment-setup.py\<close>

subsection \<open>Floats used as coordinates\<close>

text \<open>
  The only floats \<open>create_environment\<close> forms are \<open>i + 0.5\<close>, \<open>float(i)\<close> and
  \<open>float(a) + 1.0\<close> or \<open>float(a) + 0.0\<close> for ints \<open>i\<close>, \<open>a\<close>: all are half-integers.
  A double holds every half-integer of magnitude below \<open>2^52\<close> exactly, and Python prints it
  in positional notation below \<open>10^16\<close>; a grid beyond that size cannot be held in memory.
  A coordinate is therefore modelled exactly, by its number of halves:
  \<open>0.5\<close> is \<open>1\<close>, \<open>1.0\<close> is \<open>2\<close>, and float addition is addition.
\<close>

type_synonym halves = int

definition float_of_int :: "int \<Rightarrow> halves" where
  "float_of_int i = 2 * i"

definition plus_half :: "int \<Rightarrow> halves" where
  \<comment> \<open>\<open>i + 0.5\<close>\<close>
  "plus_half i = 2 * i + 1"

definition repr_float :: "halves \<Rightarrow> string" where
  \<comment> \<open>what an f-string prints for the float: \<open>1.5\<close>, \<open>2.0\<close>, \<open>-0.5\<close>\<close>
  "repr_float h =
     (if h < 0 then ''-'' else []) @ str_nat (nat \<bar>h\<bar> div 2) @ (if even h then ''.0'' else ''.5'')"

definition coord_key :: "halves \<Rightarrow> halves \<Rightarrow> string" where
  \<comment> \<open>\<open>f"{x}_{y}"\<close>\<close>
  "coord_key x y = repr_float x @ ''_'' @ repr_float y"

definition center_key :: "int \<Rightarrow> int \<Rightarrow> string" where
  \<comment> \<open>\<open>f"{i+0.5}_{j+0.5}"\<close>\<close>
  "center_key i j = coord_key (plus_half i) (plus_half j)"

definition corner_key :: "int \<Rightarrow> int \<Rightarrow> string" where
  \<comment> \<open>\<open>f"{float(i)}_{float(j)}"\<close>\<close>
  "corner_key i j = coord_key (float_of_int i) (float_of_int j)"

subsection \<open>The grid dictionary\<close>

text \<open>
  \<open>pg_dict\<close> is a Python dict from key strings to lists of labels. It is an association
  list in insertion order; \<open>AList.update\<close> replaces the value of a key that is present and
  appends a new key at the end, as assignment to a dict entry does.
\<close>

type_synonym pg_dict = "(string \<times> string list) list"

definition dict_get :: "pg_dict \<Rightarrow> string \<Rightarrow> error + string list" where
  \<comment> \<open>\<open>pg_dict[key]\<close>\<close>
  "dict_get d k = (case map_of d k of None \<Rightarrow> Inl KeyError | Some v \<Rightarrow> Inr v)"

definition dict_append :: "pg_dict \<Rightarrow> string \<Rightarrow> string \<Rightarrow> error + pg_dict" where
  \<comment> \<open>\<open>pg_dict[key].append(label)\<close>\<close>
  "dict_append d k label =
     (case dict_get d k of Inl e \<Rightarrow> Inl e | Inr v \<Rightarrow> Inr (AList.update k (v @ [label]) d))"

definition init_centers :: "int \<Rightarrow> int \<Rightarrow> pg_dict \<Rightarrow> pg_dict" where
  \<comment> \<open>lines 22-24\<close>
  "init_centers pg_row_num pg_column_num d0 =
     foldl (\<lambda>d i. foldl (\<lambda>d j. AList.update (center_key i j) [] d) d (py_range pg_column_num))
       d0 (py_range pg_row_num)"

definition init_corners :: "int \<Rightarrow> int \<Rightarrow> pg_dict \<Rightarrow> pg_dict" where
  \<comment> \<open>lines 27-29\<close>
  "init_corners pg_row_num pg_column_num d0 =
     foldl (\<lambda>d i. foldl (\<lambda>d j. AList.update (corner_key i j) [] d) d (py_range (pg_column_num + 1)))
       d0 (py_range (pg_row_num + 1))"

definition init_grid :: "int \<Rightarrow> int \<Rightarrow> pg_dict" where
  "init_grid pg_row_num pg_column_num =
     init_corners pg_row_num pg_column_num (init_centers pg_row_num pg_column_num [])"

text \<open>The keys the spec gives the Grid Model: cell centers and corners.\<close>

definition center_keys :: "int \<Rightarrow> int \<Rightarrow> string set" where
  "center_keys r c = (\<lambda>(i, j). center_key i j) ` ({0..<r} \<times> {0..<c})"

definition corner_keys :: "int \<Rightarrow> int \<Rightarrow> string set" where
  "corner_keys r c = (\<lambda>(i, j). corner_key i j) ` ({0..r} \<times> {0..c})"

subsection \<open>The random source\<close>

text \<open>
  The state of Python's generator is the stream of raw outcomes it has still to give.
  \<open>random.randint(a, b)\<close> raises \<open>ValueError\<close> on an empty range and otherwise returns a
  value of \<open>[a, b]\<close>, any of them for a suitable raw outcome. \<open>random.shuffle\<close> is the loop of
  the standard library: for \<open>i\<close> from \<open>len(x) - 1\<close> down to \<open>1\<close>, swap \<open>x[i]\<close> with
  \<open>x[j]\<close> for a drawn \<open>j \<le> i\<close>.
\<close>

type_synonym rng = "nat \<Rightarrow> nat"

definition rng_next :: "rng \<Rightarrow> rng" where
  "rng_next g = (\<lambda>n. g (Suc n))"

definition randint :: "int \<Rightarrow> int \<Rightarrow> rng \<Rightarrow> error + (int \<times> rng)" where
  "randint a b g =
     (if b < a then Inl ValueError else Inr (a + int (g 0) mod (b - a + 1), rng_next g))"

fun shuffle_from :: "nat \<Rightarrow> 'a list \<Rightarrow> rng \<Rightarrow> 'a list \<times> rng" where
  "shuffle_from 0 x g = (x, g)"
| "shuffle_from (Suc k) x g =
     (let i = Suc k; j = g 0 mod (i + 1)
      in shuffle_from k (x[i := x ! j, j := x ! i]) (rng_next g))"

definition shuffle :: "'a list \<Rightarrow> rng \<Rightarrow> 'a list \<times> rng" where
  "shuffle x g = shuffle_from (length x - 1) x g"

subsection \<open>create_environment\<close>

definition colors :: "string list" where
  "colors = [''blue'', ''red'', ''green'', ''purple'', ''orange'']"

definition corner_options :: "(halves \<times> halves) list" where
  \<comment> \<open>\<open>[(1.0, 0.0), (0.0, 0.0), (0.0, 1.0), (1.0, 1.0)]\<close>\<close>
  "corner_options = [(2, 0), (0, 0), (0, 2), (2, 2)]"

definition artifact_key :: "int \<Rightarrow> int \<Rightarrow> halves \<times> halves \<Rightarrow> string" where
  \<comment> \<open>\<open>f"{float(a_artifact) + random_x}_{float(b_artifact) + random_y}"\<close>\<close>
  "artifact_key a_artifact b_artifact opt =
     coord_key (float_of_int a_artifact + fst opt) (float_of_int b_artifact + snd opt)"

definition artifact_label :: "string \<Rightarrow> string" where
  \<comment> \<open>\<open>f'artifact_{color}'\<close>\<close>
  "artifact_label color = ''artifact_'' @ color"

definition target_label :: "string \<Rightarrow> string" where
  \<comment> \<open>\<open>f'target_{color}'\<close>\<close>
  "target_label color = ''target_'' @ color"

fun try_corners ::
  "pg_dict \<Rightarrow> string \<Rightarrow> int \<Rightarrow> int \<Rightarrow> int \<Rightarrow> int \<Rightarrow> (halves \<times> halves) list \<Rightarrow> error + pg_dict"
where
  \<comment> \<open>lines 50-55: the loop over the shuffled corner options, left by \<open>break\<close>\<close>
  "try_corners d color a_artifact b_artifact a_target b_target [] = Inr d"
| "try_corners d color a_artifact b_artifact a_target b_target (opt # rest) =
     (let corner_key = artifact_key a_artifact b_artifact opt in
      case dict_get d corner_key of
        Inl e \<Rightarrow> Inl e
      | Inr items \<Rightarrow>
          if length items = 0 then
            (case dict_append d corner_key (artifact_label color) of
               Inl e \<Rightarrow> Inl e
             | Inr d1 \<Rightarrow> dict_append d1 (center_key a_target b_target) (target_label color))
          else try_corners d color a_artifact b_artifact a_target b_target rest)"

definition place_unit :: "int \<Rightarrow> int \<Rightarrow> string \<Rightarrow> pg_dict \<times> rng \<Rightarrow> error + (pg_dict \<times> rng)" where
  \<comment> \<open>lines 36-55: the body of the loop over the units of one color.
      The divisions cannot fail: with \<open>pg_column_num = 0\<close> the range of \<open>randint\<close> is empty
      and \<open>ValueError\<close> is raised before them.\<close>
  "place_unit pg_row_num pg_column_num color s =
     (case randint 0 (pg_row_num * pg_column_num - 1) (snd s) of
        Inl e \<Rightarrow> Inl e
      | Inr (artifact_square, g1) \<Rightarrow>
          (let a_artifact = artifact_square div pg_column_num;
               b_artifact = artifact_square mod pg_column_num in
           (case randint 0 (pg_row_num * pg_column_num - 1) g1 of
              Inl e \<Rightarrow> Inl e
            | Inr (target_square, g2) \<Rightarrow>
                (let a_target = target_square div pg_column_num;
                     b_target = target_square mod pg_column_num;
                     shuffled = shuffle corner_options g2 in
                 (case try_corners (fst s) color a_artifact b_artifact a_target b_target
                         (fst shuffled) of
                    Inl e \<Rightarrow> Inl e
                  | Inr d' \<Rightarrow> Inr (d', snd shuffled))))))"

fun place_units :: "nat \<Rightarrow> int \<Rightarrow> int \<Rightarrow> string \<Rightarrow> pg_dict \<times> rng \<Rightarrow> error + (pg_dict \<times> rng)" where
  \<comment> \<open>line 35: \<open>for _ in range(artifact_num)\<close>\<close>
  "place_units 0 pg_row_num pg_column_num color s = Inr s"
| "place_units (Suc n) pg_row_num pg_column_num color s =
     (case place_unit pg_row_num pg_column_num color s of
        Inl e \<Rightarrow> Inl e
      | Inr s' \<Rightarrow> place_units n pg_row_num pg_column_num color s')"

fun place_colors ::
  "string list \<Rightarrow> int \<Rightarrow> int \<Rightarrow> int \<Rightarrow> int \<Rightarrow> pg_dict \<times> rng \<Rightarrow> error + (pg_dict \<times> rng)"
where
  \<comment> \<open>lines 32-35: \<open>for color in self.colors\<close>\<close>
  "place_colors [] pg_row_num pg_column_num low high s = Inr s"
| "place_colors (color # cs) pg_row_num pg_column_num low high s =
     (case randint low high (snd s) of
        Inl e \<Rightarrow> Inl e
      | Inr (artifact_num, g1) \<Rightarrow>
          (case place_units (nat artifact_num) pg_row_num pg_column_num color (fst s, g1) of
             Inl e \<Rightarrow> Inl e
           | Inr s' \<Rightarrow> place_colors cs pg_row_num pg_column_num low high s'))"

definition create_environment :: "int \<Rightarrow> int \<Rightarrow> int \<Rightarrow> int \<Rightarrow> rng \<Rightarrow> error + (pg_dict \<times> rng)" where
  "create_environment pg_row_num pg_column_num artifact_num_low artifact_num_high g =
     place_colors colors pg_row_num pg_column_num artifact_num_low artifact_num_high
       (init_grid pg_row_num pg_column_num, g)"

subsection \<open>validate_environment\<close>

fun count_items :: "string list \<Rightarrow> int \<times> int \<Rightarrow> int \<times> int" where
  \<comment> \<open>lines 93-97: the counters are \<open>(artifact_count, target_count)\<close>\<close>
  "count_items [] c = c"
| "count_items (item # items) c =
     count_items items
       (if startswith item ''artifact_'' then (fst c + 1, snd c)
        else if startswith item ''target_'' then (fst c, snd c + 1)
        else c)"

fun count_positions :: "pg_dict \<Rightarrow> int \<times> int \<Rightarrow> int \<times> int" where
  \<comment> \<open>line 92: \<open>for position, items in environment.items()\<close>\<close>
  "count_positions [] c = c"
| "count_positions ((position, items) # rest) c = count_positions rest (count_items items c)"

definition validate_environment :: "pg_dict \<Rightarrow> bool" where
  "validate_environment environment =
     (let (artifact_count, target_count) = count_positions environment (0, 0)
      in artifact_count = target_count \<and> artifact_count > 0)"

text \<open>The validator's contract in the spec's words: how many labels carry each prefix.\<close>

definition all_items :: "pg_dict \<Rightarrow> string list" where
  "all_items environment = concat (map snd environment)"

definition num_with_prefix :: "string \<Rightarrow> pg_dict \<Rightarrow> int" where
  "num_with_prefix p environment = int (length (filter (prefix p) (all_items environment)))"

definition drop_unlabelled :: "pg_dict \<Rightarrow> pg_dict" where
  \<comment> \<open>the document without the items that carry neither prefix\<close>
  "drop_unlabelled environment =
     map (\<lambda>(position, items).
            (position, filter (\<lambda>item. prefix ''artifact_'' item \<or> prefix ''target_'' item) items))
       environment"

text \<open>One pair placed: the keys are kept and each count grows by one.\<close>

definition placed :: "string \<Rightarrow> pg_dict \<Rightarrow> pg_dict \<Rightarrow> bool" where
  "placed color d d' =
     (map fst d' = map fst d
      \<and> num_with_prefix ''artifact_'' d' = num_with_prefix ''artifact_'' d + 1
      \<and> num_with_prefix ''target_'' d' = num_with_prefix ''target_'' d + 1)"

text \<open>
  The invariant of the placement loops: the keys are those of the initial grid, in the
  same order, and the two kinds of label are equally many.
\<close>

definition grid_inv :: "int \<Rightarrow> int \<Rightarrow> pg_dict \<Rightarrow> bool" where
  "grid_inv r c d =
     (map fst d = map fst (init_grid r c)
      \<and> num_with_prefix ''artifact_'' d = num_with_prefix ''target_'' d)"

definition all_empty :: "pg_dict \<Rightarrow> bool" where
  "all_empty d = list_all (\<lambda>p. snd p = []) d"

section \<open>data-analysis.py\<close>

subsection \<open>Paths, files and lines\<close>

text \<open>
  The analyzer only reads. The file system is a map from path strings to nodes; a regular
  file is the list of its lines as \<open>readlines()\<close> returns them. \<open>open\<close> on a directory
  raises \<open>IsADirectoryError\<close>.
\<close>

datatype node = Dir | File "string list"

type_synonym filesystem = "string \<Rightarrow> node option"

definition path_exists :: "filesystem \<Rightarrow> string \<Rightarrow> bool" where
  \<comment> \<open>\<open>os.path.exists(p)\<close>\<close>
  "path_exists fs p = (fs p \<noteq> None)"

definition read_lines :: "filesystem \<Rightarrow> string \<Rightarrow> error + string list" where
  \<comment> \<open>\<open>open(p, 'r')\<close>: the lines of the file\<close>
  "read_lines fs p =
     (case fs p of
        None \<Rightarrow> Inl FileNotFoundError
      | Some Dir \<Rightarrow> Inl IsADirectoryError
      | Some (File ls) \<Rightarrow> Inr ls)"

definition readline :: "string list \<Rightarrow> string" where
  \<comment> \<open>\<open>f.readline()\<close> on a file just opened: the first line, or the empty string\<close>
  "readline ls = (case ls of [] \<Rightarrow> [] | l # _ \<Rightarrow> l)"

definition path_join2 :: "string \<Rightarrow> string \<Rightarrow> string" where
  \<comment> \<open>one step of \<open>posixpath.join\<close>: paths are POSIX paths\<close>
  "path_join2 path b =
     (if startswith b ''/'' then b
      else if path = [] \<or> last path = CHR ''/'' then path @ b
      else path @ ''/'' @ b)"

definition os_path_join :: "string \<Rightarrow> string list \<Rightarrow> string" where
  \<comment> \<open>\<open>os.path.join(a, *p)\<close>\<close>
  "os_path_join a p = foldl path_join2 a p"

definition is_space :: "char \<Rightarrow> bool" where
  \<comment> \<open>the ASCII characters that \<open>str.strip()\<close> removes\<close>
  "is_space ch =
     (ch \<in> set [CHR '' '', CHR 0x09, CHR 0x0A, CHR 0x0B, CHR 0x0C, CHR 0x0D,
                 CHR 0x1C, CHR 0x1D, CHR 0x1E, CHR 0x1F])"

definition strip :: "string \<Rightarrow> string" where
  "strip s = rev (dropWhile is_space (rev (dropWhile is_space s)))"

subsection \<open>_analyze_configuration\<close>

text \<open>
  \<open>float(s)\<close> is the parser of the Python runtime. It is a parameter \<open>float_of\<close> of the
  model: \<open>None\<close> stands for \<open>ValueError\<close>. Parsed values, sums and quotients are reals:
  the rounding of double arithmetic is not modelled.
\<close>

type_synonym float_parser = "string \<Rightarrow> real option"

record stats =
  success_count :: int
  total_action_time :: real
  total_token_usage :: real
  total_api_queries :: int
  valid_experiments :: int

record metrics =
  success_rate :: real
  avg_action_time :: real
  avg_token_usage :: real
  avg_api_queries :: real
  total_experiments :: int

definition initial_stats :: stats where
  \<comment> \<open>lines 43-47\<close>
  "initial_stats =
     \<lparr>success_count = 0, total_action_time = 0, total_token_usage = 0,
      total_api_queries = 0, valid_experiments = 0\<rparr>"

definition result_path :: "string \<Rightarrow> int \<Rightarrow> int \<Rightarrow> string \<Rightarrow> string \<Rightarrow> int \<Rightarrow> string" where
  \<comment> \<open>lines 50-55\<close>
  "result_path data_dir pg_row_num pg_column_num framework dialogue_method iteration =
     os_path_join data_dir
       [''env_pg_state_'' @ str_int pg_row_num @ ''_'' @ str_int pg_column_num,
        ''pg_state'' @ str_int iteration,
        framework @ dialogue_method]"

definition success_file :: "string \<Rightarrow> string" where
  "success_file rp = os_path_join rp [''success_failure.txt'']"

definition action_time_file :: "string \<Rightarrow> string" where
  "action_time_file rp = os_path_join rp [''env_action_times.txt'']"

definition token_file :: "string \<Rightarrow> string" where
  "token_file rp = os_path_join rp [''token_num_count.txt'']"

definition read_action_time :: "float_parser \<Rightarrow> filesystem \<Rightarrow> string \<Rightarrow> stats \<Rightarrow> error + stats" where
  \<comment> \<open>lines 70-74\<close>
  "read_action_time float_of fs rp st =
     (if path_exists fs (action_time_file rp) then
        (case read_lines fs (action_time_file rp) of
           Inl e \<Rightarrow> Inl e
         | Inr ls \<Rightarrow>
             (case float_of (strip (readline ls)) of
                None \<Rightarrow> Inl ValueError
              | Some action_time \<Rightarrow>
                  Inr (st\<lparr>total_action_time := total_action_time st + action_time\<rparr>)))
      else Inr st)"

definition read_tokens :: "float_parser \<Rightarrow> filesystem \<Rightarrow> string \<Rightarrow> stats \<Rightarrow> error + stats" where
  \<comment> \<open>lines 77-82\<close>
  "read_tokens float_of fs rp st =
     (if path_exists fs (token_file rp) then
        (case read_lines fs (token_file rp) of
           Inl e \<Rightarrow> Inl e
         | Inr ls \<Rightarrow>
             (case those (map (\<lambda>line. float_of (strip line)) ls) of
                None \<Rightarrow> Inl ValueError
              | Some tokens \<Rightarrow>
                  Inr (st\<lparr>total_token_usage := total_token_usage st + sum_list tokens,
                          total_api_queries := total_api_queries st + int (length tokens)\<rparr>)))
      else Inr st)"

definition read_success :: "float_parser \<Rightarrow> filesystem \<Rightarrow> string \<Rightarrow> stats \<Rightarrow> error + stats" where
  \<comment> \<open>lines 67-82: the branch taken when the status is \<open>success\<close>\<close>
  "read_success float_of fs rp st =
     (case read_action_time float_of fs rp (st\<lparr>success_count := success_count st + 1\<rparr>) of
        Inl e \<Rightarrow> Inl e
      | Inr st1 \<Rightarrow> read_tokens float_of fs rp st1)"

definition analyze_iteration :: "float_parser \<Rightarrow> filesystem \<Rightarrow> string \<Rightarrow> stats \<Rightarrow> error + stats" where
  \<comment> \<open>lines 57-84: the loop body, for the result path of the iteration\<close>
  "analyze_iteration float_of fs rp st =
     (if \<not> path_exists fs rp then Inr st
      else if path_exists fs (success_file rp) then
        (case read_lines fs (success_file rp) of
           Inl e \<Rightarrow> Inl e
         | Inr ls \<Rightarrow>
             (let status = strip (readline ls) in
              (case (if status = ''success'' then read_success float_of fs rp st else Inr st) of
                 Inl e \<Rightarrow> Inl e
               | Inr st1 \<Rightarrow> Inr (st1\<lparr>valid_experiments := valid_experiments st1 + 1\<rparr>))))
      else Inr st)"

fun analyze_iterations ::
  "float_parser \<Rightarrow> filesystem \<Rightarrow> (int \<Rightarrow> string) \<Rightarrow> int list \<Rightarrow> stats \<Rightarrow> error + stats"
where
  \<comment> \<open>line 49: \<open>for iteration in range(10)\<close>; \<open>path_of\<close> gives the result path\<close>
  "analyze_iterations float_of fs path_of [] st = Inr st"
| "analyze_iterations float_of fs path_of (iteration # rest) st =
     (case analyze_iteration float_of fs (path_of iteration) st of
        Inl e \<Rightarrow> Inl e
      | Inr st1 \<Rightarrow> analyze_iterations float_of fs path_of rest st1)"

definition true_div :: "real \<Rightarrow> real \<Rightarrow> error + real" where
  \<comment> \<open>Python's \<open>/\<close>\<close>
  "true_div a b = (if b = 0 then Inl ZeroDivisionError else Inr (a / b))"

definition summarize :: "stats \<Rightarrow> error + metrics" where
  \<comment> \<open>lines 86-92\<close>
  "summarize st =
     (case true_div (of_int (success_count st)) (of_int (max (valid_experiments st) 1)) of
        Inl e \<Rightarrow> Inl e
      | Inr sr \<Rightarrow>
     (case true_div (total_action_time st) (of_int (max (success_count st) 1)) of
        Inl e \<Rightarrow> Inl e
      | Inr aat \<Rightarrow>
     (case true_div (total_token_usage st) (of_int (max (success_count st) 1)) of
        Inl e \<Rightarrow> Inl e
      | Inr atu \<Rightarrow>
     (case true_div (of_int (total_api_queries st)) (of_int (max (success_count st) 1)) of
        Inl e \<Rightarrow> Inl e
      | Inr aaq \<Rightarrow>
          Inr \<lparr>success_rate = sr, avg_action_time = aat, avg_token_usage = atu,
               avg_api_queries = aaq, total_experiments = valid_experiments st\<rparr>))))"

definition analyze_configuration ::
  "float_parser \<Rightarrow> filesystem \<Rightarrow> string \<Rightarrow> int \<Rightarrow> int \<Rightarrow> string \<Rightarrow> string \<Rightarrow> error + metrics"
where
  "analyze_configuration float_of fs data_dir pg_row_num pg_column_num framework dialogue_method =
     (case analyze_iterations float_of fs
             (result_path data_dir pg_row_num pg_column_num framework dialogue_method)
             (py_range 10) initial_stats of
        Inl e \<Rightarrow> Inl e
      | Inr st \<Rightarrow> summarize st)"

text \<open>
  The spec's notions: an iteration is success-marked when its result directory and status
  file exist and the first line of the status file, stripped, is \<open>success\<close>; it has no
  success mark when the directory or the status file is missing or the status file says
  something else.
\<close>

definition success_marked :: "filesystem \<Rightarrow> string \<Rightarrow> bool" where
  "success_marked fs rp =
     (path_exists fs rp
      \<and> (case fs (success_file rp) of
            Some (File ls) \<Rightarrow> strip (readline ls) = ''success''
          | _ \<Rightarrow> False))"

definition not_success_marked :: "filesystem \<Rightarrow> string \<Rightarrow> bool" where
  "not_success_marked fs rp =
     (\<not> path_exists fs rp \<or> \<not> path_exists fs (success_file rp)
      \<or> (case fs (success_file rp) of
            Some (File ls) \<Rightarrow> strip (readline ls) \<noteq> ''success''
          | _ \<Rightarrow> False))"

definition counted :: "filesystem \<Rightarrow> string \<Rightarrow> bool" where
  \<comment> \<open>the result directory and the status file both exist\<close>
  "counted fs rp = (path_exists fs rp \<and> path_exists fs (success_file rp))"

subsection \<open>analyze_results\<close>










subsection \<open>Formatting\<close>













subsection \<open>generate_comparison_report\<close>











section \<open>environment-setup.py: create_experiment_suite\<close>














section \<open>Example inputs\<close>

text \<open>
  A parser that knows three literals, and small file systems under \<open>/data\<close> for the
  configuration \<open>CMAS_wo_any_dialogue_history\<close> of the 2x2 grid.
\<close>

definition example_float :: float_parser where
  "example_float = map_of [(''5.0'', 5), (''10.0'', 10), (''20.0'', 20)]"

definition example_dir :: "int \<Rightarrow> string" where
  "example_dir = result_path ''/data'' 2 2 ''CMAS'' ''_wo_any_dialogue_history''"

definition fs_dir_only :: filesystem where
  \<comment> \<open>iteration 0 has a result directory with nothing in it\<close>
  "fs_dir_only = map_of [(''/data/env_pg_state_2_2/pg_state0/CMAS_wo_any_dialogue_history'', Dir)]"

definition fs_failure :: filesystem where
  \<comment> \<open>iteration 3 failed; no other iteration has data\<close>
  "fs_failure = map_of
     [(''/data/env_pg_state_2_2/pg_state3/CMAS_wo_any_dialogue_history'', Dir),
      (''/data/env_pg_state_2_2/pg_state3/CMAS_wo_any_dialogue_history/success_failure.txt'',
       File [''failure\<newline>''])]"




section \<open>Decimal strings and coordinate keys\<close>

lemma digit_char_inj: "a < 10 \<Longrightarrow> b < 10 \<Longrightarrow> digit_char a = digit_char b \<Longrightarrow> a = b"
  unfolding digit_char_def
  by (subst (asm) nth_eq_iff_index_eq) simp_all

lemma digit_char_digit: "d < 10 \<Longrightarrow> digit_char d \<in> set ''0123456789''"
  unfolding digit_char_def by (rule nth_mem) simp

lemma str_nat_digits: "set (str_nat n) \<subseteq> set ''0123456789''"
proof (induction n rule: str_nat.induct)
  case (1 n)
  show ?case
  proof (cases "n < 10")
    case True
    then show ?thesis using digit_char_digit [of n] by (subst str_nat.simps) simp
  next
    case False
    have "n mod 10 < 10" by simp
    then have "digit_char (n mod 10) \<in> set ''0123456789''" by (rule digit_char_digit)
    with False "1.IH" show ?thesis by (subst str_nat.simps) simp
  qed
qed

lemma str_nat_nonempty: "str_nat n \<noteq> []"
  by (subst str_nat.simps) simp

lemma str_nat_inj: "str_nat n = str_nat m \<Longrightarrow> n = m"
proof (induction n arbitrary: m rule: str_nat.induct)
  case (1 n)
  have en: "str_nat n = (if n < 10 then [digit_char n] else str_nat (n div 10) @ [digit_char (n mod 10)])"
    by (rule str_nat.simps)
  have em: "str_nat m = (if m < 10 then [digit_char m] else str_nat (m div 10) @ [digit_char (m mod 10)])"
    by (rule str_nat.simps)
  show ?case
  proof (cases "n < 10")
    case True
    show ?thesis
    proof (cases "m < 10")
      case m: True
      with True en em "1.prems" show ?thesis by (simp add: digit_char_inj)
    next
      case False
      with True en em "1.prems" str_nat_nonempty [of "m div 10"] show ?thesis by simp
    qed
  next
    case False
    show ?thesis
    proof (cases "m < 10")
      case True
      with False en em "1.prems" str_nat_nonempty [of "n div 10"] show ?thesis by simp
    next
      case m: False
      from False m en em "1.prems"
      have a: "str_nat (n div 10) = str_nat (m div 10)"
        and b: "digit_char (n mod 10) = digit_char (m mod 10)" by simp_all
      from "1.IH" [OF False a] have "n div 10 = m div 10" .
      moreover from b have "n mod 10 = m mod 10" by (intro digit_char_inj) simp_all
      ultimately show ?thesis by (metis div_mult_mod_eq)
    qed
  qed
qed

lemma split_at_mark:
  "set a \<subseteq> D \<Longrightarrow> set a' \<subseteq> D \<Longrightarrow> c \<notin> D \<Longrightarrow> c' \<notin> D \<Longrightarrow> a @ c # r = a' @ c' # r'
   \<Longrightarrow> a = a' \<and> c = c' \<and> r = r'"
proof (induction a arbitrary: a')
  case Nil
  then show ?case by (cases a') auto
next
  case (Cons x a)
  then show ?case by (cases a') auto
qed

lemma repr_float_nonneg:
  "0 \<le> h \<Longrightarrow> repr_float h = str_nat (nat h div 2) @ CHR ''.'' # [if even h then CHR ''0'' else CHR ''5'']"
  by (simp add: repr_float_def)

lemma repr_float_split:
  assumes "0 \<le> x" "0 \<le> x'" "repr_float x @ r = repr_float x' @ r'"
  shows "x = x' \<and> r = r'"
proof -
  let ?D = "set ''0123456789''"
  have dot: "CHR ''.'' \<notin> ?D" by simp
  from assms have
    "str_nat (nat x div 2) @ CHR ''.'' # ((if even x then CHR ''0'' else CHR ''5'') # r)
     = str_nat (nat x' div 2) @ CHR ''.'' # ((if even x' then CHR ''0'' else CHR ''5'') # r')"
    by (simp add: repr_float_nonneg)
  from split_at_mark [OF str_nat_digits str_nat_digits dot dot this]
  have a: "str_nat (nat x div 2) = str_nat (nat x' div 2)"
    and b: "(if even x then CHR ''0'' else CHR ''5'') # r = (if even x' then CHR ''0'' else CHR ''5'') # r'"
    by simp_all
  from a have d: "nat x div 2 = nat x' div 2" by (rule str_nat_inj)
  from b have e: "even x = even x'" and r: "r = r'" by (auto split: if_splits)
  have ev: "even x = even (nat x)" "even x' = even (nat x')"
    using assms(1,2) by (simp_all add: even_nat_iff)
  from d e ev have "nat x = nat x'"
    by (metis div_mult_mod_eq parity_cases)
  with assms(1,2) have "x = x'" by simp
  with r show ?thesis by simp
qed

lemma coord_key_inj:
  assumes "0 \<le> x" "0 \<le> y" "0 \<le> x'" "0 \<le> y'" "coord_key x y = coord_key x' y'"
  shows "x = x' \<and> y = y'"
proof -
  from assms(5) have "repr_float x @ (CHR ''_'' # repr_float y) = repr_float x' @ (CHR ''_'' # repr_float y')"
    by (simp add: coord_key_def)
  from repr_float_split [OF assms(1) assms(3) this]
  have x: "x = x'" and "repr_float y @ [] = repr_float y' @ []" by simp_all
  from repr_float_split [OF assms(2) assms(4) this(2)] x show ?thesis by simp
qed

section \<open>The initial grid\<close>

lemma set_py_range: "set (py_range n) = {0..<n}"
proof -
  have "int ` {0..<nat n} = {0..<n}"
    by (cases "0 \<le> n") (auto simp: image_int_atLeastLessThan)
  then show ?thesis by (simp add: py_range_def)
qed


lemma length_py_range: "length (py_range n) = nat n"
  by (simp add: py_range_def)

lemma keys_fill_row:
  "fst ` set (foldl (\<lambda>d j. AList.update (f j) [] d) d js) = fst ` set d \<union> f ` set js"
  by (induction js arbitrary: d) (auto simp: dom_update)

lemma keys_fill:
  "fst ` set (foldl (\<lambda>d i. foldl (\<lambda>d j. AList.update (f i j) [] d) d js) d is)
   = fst ` set d \<union> (\<Union>i\<in>set is. f i ` set js)"
  by (induction "is" arbitrary: d) (auto simp: keys_fill_row)

lemma distinct_fill_row:
  "distinct (map fst d) \<Longrightarrow> distinct (map fst (foldl (\<lambda>d j. AList.update (f j) [] d) d js))"
  by (induction js arbitrary: d) (auto simp: distinct_update)

lemma distinct_fill:
  "distinct (map fst d) \<Longrightarrow>
   distinct (map fst (foldl (\<lambda>d i. foldl (\<lambda>d j. AList.update (f i j) [] d) d js) d is))"
  by (induction "is" arbitrary: d) (auto simp: distinct_fill_row)

lemma set_update_subset: "set (AList.update k v d) \<subseteq> insert (k, v) (set d)"
  by (induction d) auto

lemma empty_update: "\<forall>p\<in>set d. snd p = [] \<Longrightarrow> \<forall>p\<in>set (AList.update k [] d). snd p = []"
  using set_update_subset [of k "[]" d] by auto

lemma empty_fill_row:
  "\<forall>p\<in>set d. snd p = [] \<Longrightarrow> \<forall>p\<in>set (foldl (\<lambda>d j. AList.update (f j) [] d) d js). snd p = []"
proof (induction js arbitrary: d)
  case Nil
  then show ?case by simp
next
  case (Cons j js)
  from Cons.prems have "\<forall>p\<in>set (AList.update (f j) [] d). snd p = []" by (rule empty_update)
  from Cons.IH [OF this] show ?case by simp
qed

lemma empty_fill:
  "\<forall>p\<in>set d. snd p = [] \<Longrightarrow>
   \<forall>p\<in>set (foldl (\<lambda>d i. foldl (\<lambda>d j. AList.update (f i j) [] d) d js) d is). snd p = []"
proof (induction "is" arbitrary: d)
  case Nil
  then show ?case by simp
next
  case (Cons i "is")
  from Cons.prems have "\<forall>p\<in>set (foldl (\<lambda>d j. AList.update (f i j) [] d) d js). snd p = []"
    by (rule empty_fill_row)
  from Cons.IH [OF this] show ?case by simp
qed

lemma keys_init_grid: "fst ` set (init_grid r c) = center_keys r c \<union> corner_keys r c"
proof -
  have "{0..<r + 1} = {0..r}" "{0..<c + 1} = {0..c}" by auto
  then show ?thesis
    by (auto simp: init_grid_def init_centers_def init_corners_def keys_fill set_py_range
        center_keys_def corner_keys_def)
qed

lemma distinct_init_grid: "distinct (map fst (init_grid r c))"
  by (simp add: init_grid_def init_centers_def init_corners_def distinct_fill)

lemma values_init_grid: "p \<in> set (init_grid r c) \<Longrightarrow> snd p = []"
proof -
  have "\<forall>p\<in>set (init_centers r c []). snd p = []"
    unfolding init_centers_def by (rule empty_fill) simp
  then have "\<forall>p\<in>set (init_grid r c). snd p = []"
    unfolding init_grid_def init_corners_def by (rule empty_fill)
  then show "p \<in> set (init_grid r c) \<Longrightarrow> snd p = []" by blast
qed

lemma center_key_inj:
  "0 \<le> i \<Longrightarrow> 0 \<le> j \<Longrightarrow> 0 \<le> i' \<Longrightarrow> 0 \<le> j' \<Longrightarrow> center_key i j = center_key i' j'
   \<Longrightarrow> i = i' \<and> j = j'"
  using coord_key_inj [of "plus_half i" "plus_half j" "plus_half i'" "plus_half j'"]
  by (simp add: center_key_def plus_half_def)

lemma corner_key_inj:
  "0 \<le> i \<Longrightarrow> 0 \<le> j \<Longrightarrow> 0 \<le> i' \<Longrightarrow> 0 \<le> j' \<Longrightarrow> corner_key i j = corner_key i' j'
   \<Longrightarrow> i = i' \<and> j = j'"
  using coord_key_inj [of "float_of_int i" "float_of_int j" "float_of_int i'" "float_of_int j'"]
  by (simp add: corner_key_def float_of_int_def)

lemma center_neq_corner:
  "0 \<le> i \<Longrightarrow> 0 \<le> j \<Longrightarrow> 0 \<le> i' \<Longrightarrow> 0 \<le> j' \<Longrightarrow> center_key i j \<noteq> corner_key i' j'"
  using coord_key_inj [of "plus_half i" "plus_half j" "float_of_int i'" "float_of_int j'"]
  by (auto simp: center_key_def corner_key_def plus_half_def float_of_int_def) presburger

lemma card_center_keys: "0 \<le> r \<Longrightarrow> 0 \<le> c \<Longrightarrow> int (card (center_keys r c)) = r * c"
proof -
  assume rc: "0 \<le> r" "0 \<le> c"
  have "inj_on (\<lambda>(i, j). center_key i j) ({0..<r} \<times> {0..<c})"
    by (auto simp: inj_on_def dest: center_key_inj)
  then have "card (center_keys r c) = card ({0..<r} \<times> {0..<c})"
    unfolding center_keys_def by (rule card_image)
  with rc show ?thesis by (simp add: card_cartesian_product nat_mult_distrib)
qed

lemma card_corner_keys: "0 \<le> r \<Longrightarrow> 0 \<le> c \<Longrightarrow> int (card (corner_keys r c)) = (r + 1) * (c + 1)"
proof -
  assume rc: "0 \<le> r" "0 \<le> c"
  have "inj_on (\<lambda>(i, j). corner_key i j) ({0..r} \<times> {0..c})"
    by (auto simp: inj_on_def dest: corner_key_inj)
  then have "card (corner_keys r c) = card ({0..r} \<times> {0..c})"
    unfolding corner_keys_def by (rule card_image)
  also have "\<dots> = nat (r + 1) * nat (c + 1)" by (simp add: card_cartesian_product)
  finally show ?thesis using rc by (simp add: nat_mult_distrib)
qed

lemma center_corner_disjoint: "center_keys r c \<inter> corner_keys r c = {}"
  by (auto simp: center_keys_def corner_keys_def dest: center_neq_corner [THEN notE])

lemma length_init_grid:
  assumes "0 \<le> r" "0 \<le> c"
  shows "int (length (init_grid r c)) = r * c + (r + 1) * (c + 1)"
proof -
  have "length (init_grid r c) = card (fst ` set (init_grid r c))"
    using distinct_card [OF distinct_init_grid [of r c]] by simp
  also have "\<dots> = card (center_keys r c) + card (corner_keys r c)"
    unfolding keys_init_grid
    by (rule card_Un_disjoint) (simp_all add: center_keys_def corner_keys_def center_corner_disjoint [unfolded center_keys_def corner_keys_def])
  finally show ?thesis using assms by (simp add: card_center_keys card_corner_keys)
qed

section \<open>Properties of validate_environment\<close>

lemma artifact_not_target: "prefix ''artifact_'' s \<Longrightarrow> \<not> prefix ''target_'' s"
  by (cases s) auto

lemma count_items_eq:
  "count_items items c =
     (fst c + int (length (filter (prefix ''artifact_'') items)),
      snd c + int (length (filter (prefix ''target_'') items)))"
proof (induction items arbitrary: c)
  case Nil
  show ?case by simp
next
  case (Cons item items)
  show ?case
    using artifact_not_target [of item]
    by (simp add: Cons.IH startswith_def del: Cons_prefix_Cons)
qed

lemma count_positions_eq:
  "count_positions env c =
     (fst c + num_with_prefix ''artifact_'' env, snd c + num_with_prefix ''target_'' env)"
proof (induction env arbitrary: c)
  case Nil
  show ?case by (simp add: num_with_prefix_def all_items_def)
next
  case (Cons p env)
  obtain position items where p: "p = (position, items)" by (cases p)
  show ?case
    by (simp add: p Cons.IH count_items_eq num_with_prefix_def all_items_def)
qed

lemma num_with_prefix_drop_unlabelled:
  assumes "p = ''artifact_'' \<or> p = ''target_''"
  shows "num_with_prefix p (drop_unlabelled env) = num_with_prefix p env"
proof -
  have f: "filter (\<lambda>x. (prefix ''artifact_'' x \<or> prefix ''target_'' x) \<and> prefix p x) items
      = filter (prefix p) items" for items
    using assms by (intro filter_cong) auto
  have "filter (prefix p) (all_items (drop_unlabelled env)) = filter (prefix p) (all_items env)"
    by (induction env) (auto simp: all_items_def drop_unlabelled_def f)
  then show ?thesis by (simp add: num_with_prefix_def)
qed

text \<open>
  C3. The validator returns true exactly when the number of labels starting with
  \<open>artifact_\<close> equals the number starting with \<open>target_\<close> and that number is positive.
  It is a total function of the document alone, and the labels with neither prefix do not
  matter: the document without them gets the same answer.
\<close>

theorem validate_environment_iff:
  "validate_environment environment =
     (num_with_prefix ''artifact_'' environment = num_with_prefix ''target_'' environment
      \<and> num_with_prefix ''artifact_'' environment > 0)
   \<and> validate_environment (drop_unlabelled environment) = validate_environment environment"
  by (simp add: validate_environment_def count_positions_eq num_with_prefix_drop_unlabelled)

section \<open>Appending to the grid dictionary\<close>

lemma dict_get_Inr: "(dict_get d k = Inr v) = (map_of d k = Some v)"
  by (simp add: dict_get_def split: option.splits)

lemma dict_append_Inr:
  "(dict_append d k l = Inr d') = (\<exists>v. map_of d k = Some v \<and> d' = AList.update k (v @ [l]) d)"
  by (auto simp: dict_append_def dict_get_def split: option.splits)

lemma map_of_in_keys: "map_of d k = Some v \<Longrightarrow> k \<in> fst ` set d"
  by (metis domI dom_map_of_conv_image_fst)

lemma in_keys_map_of: "k \<in> fst ` set d \<Longrightarrow> \<exists>v. map_of d k = Some v"
  by (metis domD dom_map_of_conv_image_fst)

lemma update_present_keys: "map_of d k = Some v \<Longrightarrow> map fst (AList.update k w d) = map fst d"
  using map_of_in_keys [of d k v] by (simp add: update_keys)

lemma dict_append_keys: "dict_append d k l = Inr d' \<Longrightarrow> map fst d' = map fst d"
  by (auto simp: dict_append_Inr update_present_keys)

lemma num_with_prefix_update:
  "map_of d k = Some v \<Longrightarrow>
   num_with_prefix p (AList.update k (v @ [l]) d) = num_with_prefix p d + (if prefix p l then 1 else 0)"
  by (induction d) (auto simp: num_with_prefix_def all_items_def)

lemma num_with_prefix_nonneg: "0 \<le> num_with_prefix p d"
  by (simp add: num_with_prefix_def)

lemma all_empty_num: "\<forall>q\<in>set d. snd q = [] \<Longrightarrow> num_with_prefix p d = 0"
  by (induction d) (auto simp: num_with_prefix_def all_items_def)

lemma label_prefixes:
  "prefix ''artifact_'' (artifact_label color)" "\<not> prefix ''target_'' (artifact_label color)"
  "prefix ''target_'' (target_label color)" "\<not> prefix ''artifact_'' (target_label color)"
  by (simp_all add: artifact_label_def target_label_def)

lemma place_pair_placed:
  assumes "dict_append d ck (artifact_label color) = Inr d1"
    and "dict_append d1 tk (target_label color) = Inr d'"
  shows "placed color d d'"
proof -
  from assms(1) obtain v where v: "map_of d ck = Some v" "d1 = AList.update ck (v @ [artifact_label color]) d"
    by (auto simp: dict_append_Inr)
  from assms(2) obtain w where w: "map_of d1 tk = Some w" "d' = AList.update tk (w @ [target_label color]) d1"
    by (auto simp: dict_append_Inr)
  have "map fst d' = map fst d"
    using dict_append_keys [OF assms(1)] dict_append_keys [OF assms(2)] by simp
  moreover have "num_with_prefix ''artifact_'' d' = num_with_prefix ''artifact_'' d + 1"
    unfolding w(2) v(2)
    by (simp only: num_with_prefix_update [OF w(1) [unfolded v(2)]] num_with_prefix_update [OF v(1)]
        label_prefixes if_True if_False)
  moreover have "num_with_prefix ''target_'' d' = num_with_prefix ''target_'' d + 1"
    unfolding w(2) v(2)
    by (simp only: num_with_prefix_update [OF w(1) [unfolded v(2)]] num_with_prefix_update [OF v(1)]
        label_prefixes if_True if_False)
  ultimately show ?thesis by (simp add: placed_def)
qed

lemma try_corners_result:
  "try_corners d color a b ta tb opts = Inr d' \<Longrightarrow> d' = d \<or> placed color d d'"
proof (induction opts)
  case Nil
  then show ?case by simp
next
  case (Cons opt opts)
  let ?ck = "artifact_key a b opt"
  show ?case
  proof (cases "dict_get d ?ck")
    case (Inl e)
    with Cons.prems show ?thesis by (simp add: Let_def)
  next
    case (Inr items)
    show ?thesis
    proof (cases "length items = 0")
      case False
      with Inr Cons.prems have "try_corners d color a b ta tb opts = Inr d'"
        by (simp add: Let_def)
      then show ?thesis by (rule Cons.IH)
    next
      case True
      show ?thesis
      proof (cases "dict_append d ?ck (artifact_label color)")
        case (Inl e)
        with Inr True Cons.prems show ?thesis by (simp add: Let_def)
      next
        case d1: (Inr d1)
        with Inr True Cons.prems
        have "dict_append d1 (center_key ta tb) (target_label color) = Inr d'"
          by (simp add: Let_def)
        with d1 show ?thesis by (blast intro: place_pair_placed)
      qed
    qed
  qed
qed

lemma try_corners_first_empty:
  assumes "try_corners d color a b ta tb (opt # opts) = Inr d'"
    and "map_of d (artifact_key a b opt) = Some []"
  shows "placed color d d'"
proof -
  let ?ck = "artifact_key a b opt"
  from assms(2) have g: "dict_get d ?ck = Inr []" by (simp add: dict_get_Inr)
  show ?thesis
  proof (cases "dict_append d ?ck (artifact_label color)")
    case (Inl e)
    with g assms(1) show ?thesis by (simp add: Let_def)
  next
    case d1: (Inr d1)
    with g assms(1)
    have "dict_append d1 (center_key ta tb) (target_label color) = Inr d'"
      by (simp add: Let_def)
    with d1 show ?thesis by (blast intro: place_pair_placed)
  qed
qed

lemma dict_append_ok: "k \<in> fst ` set d \<Longrightarrow> \<exists>d'. dict_append d k l = Inr d'"
  using in_keys_map_of [of k d] by (auto simp: dict_append_Inr)

lemma try_corners_ok:
  assumes "\<forall>opt\<in>set opts. artifact_key a b opt \<in> fst ` set d" and "center_key ta tb \<in> fst ` set d"
  shows "\<exists>d'. try_corners d color a b ta tb opts = Inr d'"
  using assms(1)
proof (induction opts)
  case Nil
  show ?case by simp
next
  case (Cons opt opts)
  let ?ck = "artifact_key a b opt"
  from Cons.prems have "?ck \<in> fst ` set d" by simp
  then obtain v where "map_of d ?ck = Some v"
    by (rule in_keys_map_of [THEN exE])
  then have g: "dict_get d ?ck = Inr v" by (simp add: dict_get_Inr)
  show ?case
  proof (cases "length v = 0")
    case True
    from \<open>?ck \<in> fst ` set d\<close> obtain d1 where d1: "dict_append d ?ck (artifact_label color) = Inr d1"
      by (rule dict_append_ok [THEN exE])
    from dict_append_keys [OF d1] assms(2) have "center_key ta tb \<in> fst ` set d1"
      by (simp flip: set_map)
    then obtain d' where d': "dict_append d1 (center_key ta tb) (target_label color) = Inr d'"
      by (rule dict_append_ok [THEN exE])
    have "try_corners d color a b ta tb (opt # opts) = Inr d'"
      by (simp add: Let_def g True d1 d')
    then show ?thesis by blast
  next
    case False
    from Cons.prems have "\<forall>opt\<in>set opts. artifact_key a b opt \<in> fst ` set d" by simp
    from Cons.IH [OF this] obtain d' where "try_corners d color a b ta tb opts = Inr d'" by blast
    then have "try_corners d color a b ta tb (opt # opts) = Inr d'"
      using False by (simp add: Let_def g)
    then show ?thesis by blast
  qed
qed

section \<open>Random draws and the keys they reach\<close>

lemma randint_ok:
  assumes "a \<le> b"
  shows "\<exists>v g'. randint a b g = Inr (v, g') \<and> a \<le> v \<and> v \<le> b"
proof -
  have "0 < b - a + 1" using assms by simp
  then have "0 \<le> int (g 0) mod (b - a + 1)" "int (g 0) mod (b - a + 1) < b - a + 1"
    by (rule pos_mod_sign, rule pos_mod_bound)
  with assms show ?thesis by (simp add: randint_def)
qed

lemma cell_decompose:
  fixes r c s :: int
  assumes "1 \<le> r" "1 \<le> c" "0 \<le> s" "s < r * c"
  shows "0 \<le> s div c \<and> s div c < r \<and> 0 \<le> s mod c \<and> s mod c < c"
proof -
  have c: "0 < c" using assms(2) by simp
  have m: "0 \<le> s mod c" "s mod c < c" using c by simp_all
  have d: "0 \<le> s div c" using c assms(3) by (simp add: pos_imp_zdiv_nonneg_iff)
  have "s div c < r"
  proof (rule ccontr)
    assume "\<not> s div c < r"
    then have "r \<le> s div c" by simp
    then have "r * c \<le> (s div c) * c" using c by (simp add: mult_right_mono)
    moreover have "s = (s div c) * c + s mod c" by simp
    ultimately show False using m(1) assms(4) by linarith
  qed
  with m d show ?thesis by simp
qed

lemma shuffle_from_mset:
  "k < length x \<Longrightarrow> mset (fst (shuffle_from k x g)) = mset x"
proof (induction k arbitrary: x g)
  case 0
  show ?case by simp
next
  case (Suc k)
  let ?j = "g 0 mod (Suc k + 1)"
  let ?x = "x[Suc k := x ! ?j, ?j := x ! Suc k]"
  have "?j < Suc k + 1" by (rule mod_less_divisor) simp
  with Suc.prems have j: "?j < length x" by linarith
  have "k < length ?x" using Suc.prems by simp
  then have "mset (fst (shuffle_from k ?x (rng_next g))) = mset ?x" by (rule Suc.IH)
  also have "mset ?x = mset x" using j Suc.prems by (rule mset_swap)
  finally show ?case by (simp add: Let_def)
qed

lemma shuffle_mset: "mset (fst (shuffle x g)) = mset x"
proof (cases x)
  case Nil
  then show ?thesis by (simp add: shuffle_def)
next
  case (Cons y ys)
  then have "length x - 1 < length x" by simp
  then show ?thesis unfolding shuffle_def by (rule shuffle_from_mset)
qed

lemma shuffle_set: "set (fst (shuffle x g)) = set x"
  using shuffle_mset [of x g] by (metis set_mset_mset)

lemma shuffle_nonempty: "x \<noteq> [] \<Longrightarrow> fst (shuffle x g) \<noteq> []"
  using shuffle_mset [of x g] by (metis mset_zero_iff)

lemma artifact_key_corner:
  "artifact_key a b (2 * dx, 2 * dy) = corner_key (a + dx) (b + dy)"
  by (simp add: artifact_key_def corner_key_def float_of_int_def algebra_simps)

lemma corner_options_cases:
  "opt \<in> set corner_options \<Longrightarrow> \<exists>dx dy. opt = (2 * dx, 2 * dy) \<and> dx \<in> {0, 1} \<and> dy \<in> {0, 1}"
  by (auto simp: corner_options_def)

lemma artifact_key_in_grid:
  fixes a b r c :: int
  assumes "0 \<le> a" "a < r" "0 \<le> b" "b < c" "opt \<in> set corner_options"
  shows "artifact_key a b opt \<in> corner_keys r c"
proof -
  from assms(5) obtain dx dy where o: "opt = (2 * dx, 2 * dy)" "dx \<in> {0, 1}" "dy \<in> {0, 1}"
    using corner_options_cases by blast
  have "(a + dx, b + dy) \<in> {0..r} \<times> {0..c}" using assms(1-4) o(2,3) by auto
  then have "(\<lambda>(i, j). corner_key i j) (a + dx, b + dy) \<in> corner_keys r c"
    unfolding corner_keys_def by (rule imageI)
  then show ?thesis by (simp add: o(1) artifact_key_corner)
qed

lemma center_key_in_grid:
  assumes "0 \<le> a" "a < r" "0 \<le> b" "b < c"
  shows "center_key a b \<in> center_keys r c"
proof -
  have "(a, b) \<in> {0..<r} \<times> {0..<c}" using assms by simp
  then have "(\<lambda>(i, j). center_key i j) (a, b) \<in> center_keys r c"
    unfolding center_keys_def by (rule imageI)
  then show ?thesis by simp
qed

lemma center_neq_artifact_key:
  assumes "0 \<le> a" "0 \<le> b" "0 \<le> ta" "0 \<le> tb" "opt \<in> set corner_options"
  shows "center_key ta tb \<noteq> artifact_key a b opt"
proof -
  from assms(5) obtain dx dy where o: "opt = (2 * dx, 2 * dy)" "dx \<in> {0, 1}" "dy \<in> {0, 1}"
    using corner_options_cases by blast
  have "0 \<le> a + dx" "0 \<le> b + dy" using assms(1,2) o(2,3) by auto
  with assms(3,4) have "center_key ta tb \<noteq> corner_key (a + dx) (b + dy)"
    by (intro center_neq_corner)
  then show ?thesis by (simp add: o(1) artifact_key_corner)
qed

lemma keys_of_grid:
  "map fst d = map fst (init_grid r c) \<Longrightarrow> fst ` set d = center_keys r c \<union> corner_keys r c"
  by (metis keys_init_grid list.set_map)

section \<open>The invariant of the placement loops\<close>

lemma placed_grid_inv: "grid_inv r c d \<Longrightarrow> placed color d d' \<Longrightarrow> grid_inv r c d'"
  by (simp add: grid_inv_def placed_def)

lemma all_empty_lookup:
  assumes "all_empty d" "k \<in> fst ` set d"
  shows "map_of d k = Some []"
proof -
  from assms(2) obtain v where v: "map_of d k = Some v" by (rule in_keys_map_of [THEN exE])
  then have "(k, v) \<in> set d" by (rule map_of_SomeD)
  with assms(1) have "v = []" by (auto simp: all_empty_def list_all_iff)
  with v show ?thesis by simp
qed

lemma place_unit_step:
  fixes r c :: int
  assumes "1 \<le> r" "1 \<le> c" "map fst d = map fst (init_grid r c)"
  shows "\<exists>d' g'. place_unit r c color (d, g) = Inr (d', g')
           \<and> (d' = d \<or> placed color d d') \<and> (all_empty d \<longrightarrow> placed color d d')"
proof -
  have rc: "0 \<le> r * c - 1" using assms(1,2) by (simp add: mult_le_cancel_left1 order_trans [of 1 r "r * c"])
  from randint_ok [OF rc] obtain asq g1 where
    asq: "randint 0 (r * c - 1) g = Inr (asq, g1)" "0 \<le> asq" "asq \<le> r * c - 1" by blast
  from randint_ok [OF rc] obtain tsq g2 where
    tsq: "randint 0 (r * c - 1) g1 = Inr (tsq, g2)" "0 \<le> tsq" "tsq \<le> r * c - 1" by blast
  let ?a = "asq div c" and ?b = "asq mod c" and ?ta = "tsq div c" and ?tb = "tsq mod c"
  let ?sh = "shuffle corner_options g2"
  let ?opts = "fst ?sh"
  from asq(3) have "asq < r * c" by simp
  from cell_decompose [OF assms(1,2) asq(2) this]
  have ab: "0 \<le> ?a" "?a < r" "0 \<le> ?b" "?b < c" by simp_all
  from tsq(3) have "tsq < r * c" by simp
  from cell_decompose [OF assms(1,2) tsq(2) this]
  have tab: "0 \<le> ?ta" "?ta < r" "0 \<le> ?tb" "?tb < c" by simp_all
  have keys: "fst ` set d = center_keys r c \<union> corner_keys r c"
    using assms(3) by (rule keys_of_grid)
  have opts: "\<forall>opt\<in>set ?opts. artifact_key ?a ?b opt \<in> fst ` set d"
    using artifact_key_in_grid [OF ab] by (simp add: keys shuffle_set)
  have tk: "center_key ?ta ?tb \<in> fst ` set d"
    using center_key_in_grid [OF tab] by (simp add: keys)
  from try_corners_ok [OF opts tk] obtain d' where
    d': "try_corners d color ?a ?b ?ta ?tb ?opts = Inr d'" by (rule exE)
  have res: "place_unit r c color (d, g) = Inr (d', snd ?sh)"
    by (simp add: place_unit_def asq(1) tsq(1) Let_def d')
  have alt: "d' = d \<or> placed color d d'" using d' by (rule try_corners_result)
  have "placed color d d'" if e: "all_empty d"
  proof -
    have "corner_options \<noteq> []" by (simp add: corner_options_def)
    then have "?opts \<noteq> []" by (rule shuffle_nonempty)
    then obtain opt rest where o: "?opts = opt # rest" by (cases ?opts) auto
    then have "opt \<in> set ?opts" by simp
    with opts have "artifact_key ?a ?b opt \<in> fst ` set d" by blast
    with e have "map_of d (artifact_key ?a ?b opt) = Some []" by (rule all_empty_lookup)
    with d' [unfolded o] show ?thesis by (rule try_corners_first_empty)
  qed
  with res alt show ?thesis by blast
qed

lemma placed_count:
  "d' = d \<or> placed color d d' \<Longrightarrow> num_with_prefix ''artifact_'' d \<le> num_with_prefix ''artifact_'' d'"
  by (auto simp: placed_def)

lemma place_unit_inv:
  fixes r c :: int
  assumes "1 \<le> r" "1 \<le> c" "grid_inv r c d"
  shows "\<exists>d' g'. place_unit r c color (d, g) = Inr (d', g') \<and> grid_inv r c d'
           \<and> num_with_prefix ''artifact_'' d \<le> num_with_prefix ''artifact_'' d'
           \<and> (all_empty d \<longrightarrow> 0 < num_with_prefix ''artifact_'' d')"
proof -
  from assms(3) have k: "map fst d = map fst (init_grid r c)" by (simp add: grid_inv_def)
  from place_unit_step [OF assms(1,2) k, of color g] obtain d' g' where
    s: "place_unit r c color (d, g) = Inr (d', g')" "d' = d \<or> placed color d d'"
       "all_empty d \<longrightarrow> placed color d d'" by blast
  have "grid_inv r c d'" using s(2) assms(3) placed_grid_inv by blast
  moreover have "num_with_prefix ''artifact_'' d \<le> num_with_prefix ''artifact_'' d'"
    using s(2) by (rule placed_count)
  moreover have "0 < num_with_prefix ''artifact_'' d'" if "all_empty d"
    using that s(3) num_with_prefix_nonneg [of "''artifact_''" d] by (simp add: placed_def)
  ultimately show ?thesis using s(1) by blast
qed

lemma place_units_inv:
  fixes r c :: int
  assumes "1 \<le> r" "1 \<le> c"
  shows "grid_inv r c d \<Longrightarrow>
         \<exists>d' g'. place_units n r c color (d, g) = Inr (d', g') \<and> grid_inv r c d'
           \<and> num_with_prefix ''artifact_'' d \<le> num_with_prefix ''artifact_'' d'
           \<and> (0 < n \<and> all_empty d \<longrightarrow> 0 < num_with_prefix ''artifact_'' d')"
proof (induction n arbitrary: d g)
  case 0
  then show ?case by simp
next
  case (Suc n)
  from place_unit_inv [OF assms Suc.prems, of color g] obtain d1 g1 where
    u: "place_unit r c color (d, g) = Inr (d1, g1)" "grid_inv r c d1"
       "num_with_prefix ''artifact_'' d \<le> num_with_prefix ''artifact_'' d1"
       "all_empty d \<longrightarrow> 0 < num_with_prefix ''artifact_'' d1" by blast
  from Suc.IH [OF u(2), of g1] obtain d' g' where
    r: "place_units n r c color (d1, g1) = Inr (d', g')" "grid_inv r c d'"
       "num_with_prefix ''artifact_'' d1 \<le> num_with_prefix ''artifact_'' d'" by blast
  have "place_units (Suc n) r c color (d, g) = Inr (d', g')" by (simp add: u(1) r(1))
  moreover have "num_with_prefix ''artifact_'' d \<le> num_with_prefix ''artifact_'' d'"
    using u(3) r(3) by simp
  moreover have "all_empty d \<longrightarrow> 0 < num_with_prefix ''artifact_'' d'"
    using u(4) r(3) by auto
  ultimately show ?case using r(2) by blast
qed

lemma place_colors_inv:
  fixes r c low high :: int
  assumes "1 \<le> r" "1 \<le> c" "1 \<le> low" "low \<le> high"
  shows "grid_inv r c d \<Longrightarrow>
         \<exists>d' g'. place_colors cs r c low high (d, g) = Inr (d', g') \<and> grid_inv r c d'
           \<and> num_with_prefix ''artifact_'' d \<le> num_with_prefix ''artifact_'' d'
           \<and> (cs \<noteq> [] \<and> all_empty d \<longrightarrow> 0 < num_with_prefix ''artifact_'' d')"
proof (induction cs arbitrary: d g)
  case Nil
  then show ?case by simp
next
  case (Cons color cs)
  from randint_ok [OF assms(4), of g] obtain artifact_num g1 where
    n: "randint low high g = Inr (artifact_num, g1)" "low \<le> artifact_num" by blast
  with assms(3) have pos: "0 < nat artifact_num" by simp
  from place_units_inv [OF assms(1,2) Cons.prems, of "nat artifact_num" color g1] pos
  obtain d1 g2 where
    u: "place_units (nat artifact_num) r c color (d, g1) = Inr (d1, g2)" "grid_inv r c d1"
       "num_with_prefix ''artifact_'' d \<le> num_with_prefix ''artifact_'' d1"
       "all_empty d \<longrightarrow> 0 < num_with_prefix ''artifact_'' d1" by blast
  from Cons.IH [OF u(2), of g2] obtain d' g' where
    r: "place_colors cs r c low high (d1, g2) = Inr (d', g')" "grid_inv r c d'"
       "num_with_prefix ''artifact_'' d1 \<le> num_with_prefix ''artifact_'' d'" by blast
  have "place_colors (color # cs) r c low high (d, g) = Inr (d', g')"
    by (simp add: n(1) u(1) r(1))
  moreover have "num_with_prefix ''artifact_'' d \<le> num_with_prefix ''artifact_'' d'"
    using u(3) r(3) by simp
  moreover have "all_empty d \<longrightarrow> 0 < num_with_prefix ''artifact_'' d'"
    using u(4) r(3) by auto
  ultimately show ?case using r(2) by blast
qed

lemma all_empty_init_grid: "all_empty (init_grid r c)"
  using values_init_grid [of _ r c] by (auto simp: all_empty_def list_all_iff)

lemma grid_inv_init_grid: "grid_inv r c (init_grid r c)"
proof -
  have "\<forall>q\<in>set (init_grid r c). snd q = []" using values_init_grid [of _ r c] by blast
  then show ?thesis by (simp add: grid_inv_def all_empty_num)
qed

lemma create_environment_inv:
  fixes r c low high :: int
  assumes "1 \<le> r" "1 \<le> c" "1 \<le> low" "low \<le> high"
  shows "\<exists>d g'. create_environment r c low high g = Inr (d, g') \<and> grid_inv r c d
           \<and> 0 < num_with_prefix ''artifact_'' d"
proof -
  have "colors \<noteq> []" by (simp add: colors_def)
  with place_colors_inv [OF assms grid_inv_init_grid, of colors g] all_empty_init_grid [of r c]
  show ?thesis unfolding create_environment_def by blast
qed

section \<open>The synthesized document\<close>

lemma place_unit_keys:
  assumes "place_unit r c color s = Inr s'"
  shows "map fst (fst s') = map fst (fst s)"
proof -
  from assms obtain a b ta tb opts where "try_corners (fst s) color a b ta tb opts = Inr (fst s')"
    by (auto simp: place_unit_def Let_def split: sum.splits prod.splits)
  then have "fst s' = fst s \<or> placed color (fst s) (fst s')" by (rule try_corners_result)
  then show ?thesis by (auto simp: placed_def)
qed

lemma place_units_keys:
  "place_units n r c color s = Inr s' \<Longrightarrow> map fst (fst s') = map fst (fst s)"
proof (induction n arbitrary: s)
  case 0
  then show ?case by simp
next
  case (Suc n)
  then obtain s1 where s1: "place_unit r c color s = Inr s1" "place_units n r c color s1 = Inr s'"
    by (auto split: sum.splits)
  from Suc.IH [OF s1(2)] place_unit_keys [OF s1(1)] show ?case by simp
qed

lemma place_colors_keys:
  "place_colors cs r c low high s = Inr s' \<Longrightarrow> map fst (fst s') = map fst (fst s)"
proof (induction cs arbitrary: s)
  case Nil
  then show ?case by simp
next
  case (Cons color cs)
  then obtain n g1 s1 where s1: "place_units n r c color (fst s, g1) = Inr s1"
    "place_colors cs r c low high s1 = Inr s'"
    by (auto split: sum.splits prod.splits)
  from Cons.IH [OF s1(2)] place_units_keys [OF s1(1)] show ?case by simp
qed

lemma create_environment_keys:
  "create_environment r c low high g = Inr (d, g') \<Longrightarrow> map fst d = map fst (init_grid r c)"
  unfolding create_environment_def using place_colors_keys by fastforce

text \<open>
  C5. For positive grid sizes and an artifact range with \<open>1 \<le> low \<le> high\<close>, whatever the
  random source gives, \<open>create_environment\<close> returns a document that
  \<open>validate_environment\<close> accepts: the two counts are equal, since both labels of a pair are
  appended together or not at all, and positive, since the first unit of the first color
  finds the grid empty.
\<close>

theorem create_environment_validates:
  fixes r c low high :: int
  assumes "1 \<le> r" "1 \<le> c" "1 \<le> low" "low \<le> high"
  shows "\<exists>d g'. create_environment r c low high g = Inr (d, g') \<and> validate_environment d
           \<and> num_with_prefix ''artifact_'' d = num_with_prefix ''target_'' d
           \<and> 0 < num_with_prefix ''artifact_'' d"
proof -
  from create_environment_inv [OF assms, of g] obtain d g' where
    e: "create_environment r c low high g = Inr (d, g')" "grid_inv r c d"
       "0 < num_with_prefix ''artifact_'' d" by blast
  from e(2) have b: "num_with_prefix ''artifact_'' d = num_with_prefix ''target_'' d"
    by (simp add: grid_inv_def)
  with e(3) have "validate_environment d"
    by (simp add: validate_environment_def count_positions_eq)
  with e(1,3) b show ?thesis by blast
qed

theorem create_environment_validates_witness:
  "\<exists>d g'. create_environment 2 2 1 1 (\<lambda>n. n) = Inr (d, g') \<and> validate_environment d
           \<and> num_with_prefix ''artifact_'' d = num_with_prefix ''target_'' d
           \<and> 0 < num_with_prefix ''artifact_'' d"
  using create_environment_validates [of 2 2 1 1 "\<lambda>n. n"] by simp

text \<open>
  C8. For positive grid sizes and \<open>1 \<le> low \<le> high\<close> the synthesizer returns a document
  and raises nothing. Every cell index of \<open>[0, rows*cols)\<close> decomposes by division and
  remainder into a row of \<open>[0, rows)\<close> and a column of \<open>[0, cols)\<close>; the key of each of the
  four corner options is the corner \<open>(row+dx, col+dy)\<close> with \<open>dx, dy\<close> in \<open>{0,1}\<close> and is a
  key of the grid, and so is the center key of the cell.
\<close>

theorem create_environment_no_exception:
  fixes r c low high :: int
  assumes "1 \<le> r" "1 \<le> c" "1 \<le> low" "low \<le> high"
  shows "(\<exists>d g'. create_environment r c low high g = Inr (d, g'))
       \<and> (\<forall>s. 0 \<le> s \<and> s < r * c \<longrightarrow>
             0 \<le> s div c \<and> s div c < r \<and> 0 \<le> s mod c \<and> s mod c < c
             \<and> (\<forall>opt\<in>set corner_options.
                   (\<exists>dx\<in>{0, 1}. \<exists>dy\<in>{0, 1}.
                      artifact_key (s div c) (s mod c) opt = corner_key (s div c + dx) (s mod c + dy))
                   \<and> artifact_key (s div c) (s mod c) opt \<in> fst ` set (init_grid r c))
             \<and> center_key (s div c) (s mod c) \<in> fst ` set (init_grid r c))"
proof (intro conjI allI impI)
  from create_environment_inv [OF assms, of g]
  show "\<exists>d g'. create_environment r c low high g = Inr (d, g')" by blast
next
  fix s :: int
  assume s: "0 \<le> s \<and> s < r * c"
  then have s': "0 \<le> s" "s < r * c" by simp_all
  from cell_decompose [OF assms(1,2) s']
  have ab: "0 \<le> s div c" "s div c < r" "0 \<le> s mod c" "s mod c < c" by simp_all
  from ab show "0 \<le> s div c" "s div c < r" "0 \<le> s mod c" "s mod c < c" by simp_all
  show "\<forall>opt\<in>set corner_options.
          (\<exists>dx\<in>{0, 1}. \<exists>dy\<in>{0, 1}.
             artifact_key (s div c) (s mod c) opt = corner_key (s div c + dx) (s mod c + dy))
          \<and> artifact_key (s div c) (s mod c) opt \<in> fst ` set (init_grid r c)"
  proof
    fix opt
    assume o: "opt \<in> set corner_options"
    from corner_options_cases [OF o] obtain dx dy where
      d: "opt = (2 * dx, 2 * dy)" "dx \<in> {0, 1}" "dy \<in> {0, 1}" by blast
    have "artifact_key (s div c) (s mod c) opt = corner_key (s div c + dx) (s mod c + dy)"
      by (simp add: d(1) artifact_key_corner)
    with d(2,3) have "\<exists>dx\<in>{0, 1}. \<exists>dy\<in>{0, 1}.
        artifact_key (s div c) (s mod c) opt = corner_key (s div c + dx) (s mod c + dy)"
      by blast
    moreover have "artifact_key (s div c) (s mod c) opt \<in> fst ` set (init_grid r c)"
      using artifact_key_in_grid [OF ab o] by (simp add: keys_init_grid)
    ultimately show "(\<exists>dx\<in>{0, 1}. \<exists>dy\<in>{0, 1}.
             artifact_key (s div c) (s mod c) opt = corner_key (s div c + dx) (s mod c + dy))
          \<and> artifact_key (s div c) (s mod c) opt \<in> fst ` set (init_grid r c)" by blast
  qed
  show "center_key (s div c) (s mod c) \<in> fst ` set (init_grid r c)"
    using center_key_in_grid [OF ab] by (simp add: keys_init_grid)
qed

theorem create_environment_no_exception_witness:
  "(\<exists>d g'. create_environment 2 4 1 3 (\<lambda>n. 7 * n + 3) = Inr (d, g'))
   \<and> 0 \<le> (5::int) div 4 \<and> (5::int) div 4 < 2 \<and> 0 \<le> (5::int) mod 4 \<and> (5::int) mod 4 < 4
   \<and> center_key (5 div 4) (5 mod 4) \<in> fst ` set (init_grid 2 4)"
proof -
  have h: "(1::int) \<le> 2" "(1::int) \<le> 4" "(1::int) \<le> 1" "(1::int) \<le> 3" by simp_all
  have s: "(0::int) \<le> 5 \<and> (5::int) < 2 * 4" by simp
  from create_environment_no_exception [OF h, of "\<lambda>n. 7 * n + 3"] s show ?thesis by blast
qed

text \<open>
  C6. For positive grid sizes the initial grid has exactly
  \<open>rows*cols + (rows+1)*(cols+1)\<close> keys, all different: the center keys and the corner keys,
  two families that share no string. Every key maps to the empty list. Whatever
  \<open>create_environment\<close> returns has the same keys in the same order: the placement loop
  removes no key and adds none.
\<close>

theorem initial_grid_key_set:
  fixes r c :: int
  assumes "1 \<le> r" "1 \<le> c"
  shows "int (length (init_grid r c)) = r * c + (r + 1) * (c + 1)
       \<and> distinct (map fst (init_grid r c))
       \<and> fst ` set (init_grid r c) = center_keys r c \<union> corner_keys r c
       \<and> center_keys r c \<inter> corner_keys r c = {}
       \<and> int (card (center_keys r c)) = r * c
       \<and> int (card (corner_keys r c)) = (r + 1) * (c + 1)
       \<and> (\<forall>p\<in>set (init_grid r c). snd p = [])
       \<and> (\<forall>low high g d g'. create_environment r c low high g = Inr (d, g') \<longrightarrow>
             map fst d = map fst (init_grid r c)
             \<and> int (length d) = r * c + (r + 1) * (c + 1))"
proof -
  have rc: "0 \<le> r" "0 \<le> c" using assms by simp_all
  have len: "int (length (init_grid r c)) = r * c + (r + 1) * (c + 1)"
    using rc by (rule length_init_grid)
  have "map fst d = map fst (init_grid r c) \<and> int (length d) = r * c + (r + 1) * (c + 1)"
    if "create_environment r c low high g = Inr (d, g')" for low high g d g'
  proof -
    from that have k: "map fst d = map fst (init_grid r c)" by (rule create_environment_keys)
    then have "length d = length (init_grid r c)" by (metis length_map)
    with len k show ?thesis by simp
  qed
  then have "\<forall>low high g d g'. create_environment r c low high g = Inr (d, g') \<longrightarrow>
             map fst d = map fst (init_grid r c)
             \<and> int (length d) = r * c + (r + 1) * (c + 1)" by blast
  moreover have "\<forall>p\<in>set (init_grid r c). snd p = []" using values_init_grid by blast
  ultimately show ?thesis
    using len distinct_init_grid [of r c] keys_init_grid [of r c] center_corner_disjoint [of r c]
      card_center_keys [OF rc] card_corner_keys [OF rc] by simp
qed

theorem initial_grid_key_set_witness:
  "int (length (init_grid 1 1)) = 1 * 1 + (1 + 1) * (1 + 1)
   \<and> distinct (map fst (init_grid 1 1))
   \<and> (\<exists>d g'. create_environment 1 1 1 1 (\<lambda>n. 0) = Inr (d, g')
          \<and> map fst d = map fst (init_grid 1 1) \<and> int (length d) = 5)"
proof -
  have h: "(1::int) \<le> 1" by simp
  from create_environment_inv [OF h h h h, of "\<lambda>n. 0"] obtain d g' where
    e: "create_environment 1 1 1 1 (\<lambda>n. 0) = Inr (d, g')" by blast
  note k = initial_grid_key_set [OF h h]
  from k e have "map fst d = map fst (init_grid 1 1) \<and> int (length d) = 1 * 1 + (1 + 1) * (1 + 1)"
    by blast
  then have "\<exists>d g'. create_environment 1 1 1 1 (\<lambda>n. 0) = Inr (d, g')
          \<and> map fst d = map fst (init_grid 1 1) \<and> int (length d) = 5"
    using e by auto
  with k show ?thesis by simp
qed

section \<open>One placement unit\<close>

lemma try_corners_find:
  assumes "\<forall>opt\<in>set opts. artifact_key a b opt \<in> fst ` set d"
    and "map_of d (center_key ta tb) = Some vt"
    and "\<forall>opt\<in>set opts. center_key ta tb \<noteq> artifact_key a b opt"
  shows "try_corners d color a b ta tb opts =
     Inr (case find (\<lambda>opt. map_of d (artifact_key a b opt) = Some []) opts of
            None \<Rightarrow> d
          | Some opt \<Rightarrow>
              AList.update (center_key ta tb) (vt @ [target_label color])
                (AList.update (artifact_key a b opt) [artifact_label color] d))"
  using assms(1,3)
proof (induction opts)
  case Nil
  show ?case by simp
next
  case (Cons opt opts)
  let ?ck = "artifact_key a b opt"
  let ?tk = "center_key ta tb"
  from Cons.prems(1) have "?ck \<in> fst ` set d" by simp
  then obtain v where v: "map_of d ?ck = Some v" by (rule in_keys_map_of [THEN exE])
  then have g: "dict_get d ?ck = Inr v" by (simp add: dict_get_Inr)
  from Cons.prems(2) have ne: "?tk \<noteq> ?ck" by simp
  show ?case
  proof (cases "v = []")
    case True
    let ?d1 = "AList.update ?ck [artifact_label color] d"
    have d1: "dict_append d ?ck (artifact_label color) = Inr ?d1"
      using v True by (simp add: dict_append_Inr)
    have "map_of ?d1 ?tk = Some vt" using ne assms(2) by (simp add: update_conv')
    then have d2: "dict_append ?d1 ?tk (target_label color)
        = Inr (AList.update ?tk (vt @ [target_label color]) ?d1)"
      by (simp add: dict_append_Inr)
    from v True have f: "map_of d ?ck = Some []" by simp
    show ?thesis by (simp add: Let_def g True d1 d2 f)
  next
    case False
    from Cons.prems have p: "\<forall>opt\<in>set opts. artifact_key a b opt \<in> fst ` set d"
      "\<forall>opt\<in>set opts. center_key ta tb \<noteq> artifact_key a b opt" by simp_all
    from v False have f: "map_of d ?ck \<noteq> Some []" by simp
    show ?thesis using False by (simp add: Let_def g f Cons.IH [OF p])
  qed
qed

lemma artifact_keys_of_options:
  "map (artifact_key a b) corner_options
   = [corner_key (a + 1) b, corner_key a b, corner_key a (b + 1), corner_key (a + 1) (b + 1)]"
  using artifact_key_corner [of a b 1 0] artifact_key_corner [of a b 0 0]
    artifact_key_corner [of a b 0 1] artifact_key_corner [of a b 1 1]
  by (simp add: corner_options_def)

text \<open>
  C4. One placement unit, in any state of the grid that has the keys of the initial grid.
  The options are visited in the shuffled order, a rearrangement of the four corners
  \<open>(row, col)\<close>, \<open>(row+1, col)\<close>, \<open>(row, col+1)\<close>, \<open>(row+1, col+1)\<close> of the drawn artifact
  cell. If one of them holds an empty list, the first such in that order receives the
  artifact label and the center of the drawn target cell receives the target label;
  if none does, the grid is returned as it was. Neither case raises.
\<close>

theorem place_unit_first_empty_corner:
  fixes r c :: int
  assumes "1 \<le> r" "1 \<le> c" "map fst d = map fst (init_grid r c)"
  shows "\<exists>asq g1 tsq g2 opts g3.
      randint 0 (r * c - 1) g = Inr (asq, g1)
    \<and> randint 0 (r * c - 1) g1 = Inr (tsq, g2)
    \<and> shuffle corner_options g2 = (opts, g3)
    \<and> (let a = asq div c; b = asq mod c; ta = tsq div c; tb = tsq mod c in
         mset (map (artifact_key a b) opts)
           = mset [corner_key a b, corner_key (a + 1) b, corner_key a (b + 1),
                   corner_key (a + 1) (b + 1)]
       \<and> (case find (\<lambda>opt. map_of d (artifact_key a b opt) = Some []) opts of
            None \<Rightarrow> place_unit r c color (d, g) = Inr (d, g3)
          | Some opt \<Rightarrow>
              (\<exists>vt. map_of d (center_key ta tb) = Some vt
                 \<and> place_unit r c color (d, g) =
                     Inr (AList.update (center_key ta tb) (vt @ [target_label color])
                            (AList.update (artifact_key a b opt) [artifact_label color] d),
                          g3))))"
proof -
  have rc: "0 \<le> r * c - 1"
    using assms(1,2) by (simp add: mult_le_cancel_left1 order_trans [of 1 r "r * c"])
  from randint_ok [OF rc] obtain asq g1 where
    asq: "randint 0 (r * c - 1) g = Inr (asq, g1)" "0 \<le> asq" "asq \<le> r * c - 1" by blast
  from randint_ok [OF rc] obtain tsq g2 where
    tsq: "randint 0 (r * c - 1) g1 = Inr (tsq, g2)" "0 \<le> tsq" "tsq \<le> r * c - 1" by blast
  obtain opts g3 where sh: "shuffle corner_options g2 = (opts, g3)" by (cases "shuffle corner_options g2")
  let ?a = "asq div c" and ?b = "asq mod c" and ?ta = "tsq div c" and ?tb = "tsq mod c"
  from asq(3) have "asq < r * c" by simp
  from cell_decompose [OF assms(1,2) asq(2) this]
  have ab: "0 \<le> ?a" "?a < r" "0 \<le> ?b" "?b < c" by simp_all
  from tsq(3) have "tsq < r * c" by simp
  from cell_decompose [OF assms(1,2) tsq(2) this]
  have tab: "0 \<le> ?ta" "?ta < r" "0 \<le> ?tb" "?tb < c" by simp_all
  have so: "set opts = set corner_options" using shuffle_set [of corner_options g2] by (simp add: sh)
  have mo: "mset opts = mset corner_options" using shuffle_mset [of corner_options g2] by (simp add: sh)
  have keys: "fst ` set d = center_keys r c \<union> corner_keys r c"
    using assms(3) by (rule keys_of_grid)
  have k1: "\<forall>opt\<in>set opts. artifact_key ?a ?b opt \<in> fst ` set d"
    using artifact_key_in_grid [OF ab] by (simp add: keys so)
  have "center_key ?ta ?tb \<in> fst ` set d"
    using center_key_in_grid [OF tab] by (simp add: keys)
  then obtain vt where vt: "map_of d (center_key ?ta ?tb) = Some vt"
    by (rule in_keys_map_of [THEN exE])
  have k3: "\<forall>opt\<in>set opts. center_key ?ta ?tb \<noteq> artifact_key ?a ?b opt"
    using center_neq_artifact_key [OF ab(1) ab(3) tab(1) tab(3)] by (simp add: so)
  note tc = try_corners_find [OF k1 vt k3, of color]
  have pu: "place_unit r c color (d, g) =
      Inr (case find (\<lambda>opt. map_of d (artifact_key ?a ?b opt) = Some []) opts of
            None \<Rightarrow> d
          | Some opt \<Rightarrow>
              AList.update (center_key ?ta ?tb) (vt @ [target_label color])
                (AList.update (artifact_key ?a ?b opt) [artifact_label color] d), g3)"
    by (simp add: place_unit_def asq(1) tsq(1) sh Let_def tc)
  have "mset (map (artifact_key ?a ?b) opts) = mset (map (artifact_key ?a ?b) corner_options)"
    using mo by (metis mset_map)
  then have ms: "mset (map (artifact_key ?a ?b) opts)
      = mset [corner_key ?a ?b, corner_key (?a + 1) ?b, corner_key ?a (?b + 1),
              corner_key (?a + 1) (?b + 1)]"
    by (simp add: artifact_keys_of_options)
  have cs: "case find (\<lambda>opt. map_of d (artifact_key ?a ?b opt) = Some []) opts of
            None \<Rightarrow> place_unit r c color (d, g) = Inr (d, g3)
          | Some opt \<Rightarrow>
              (\<exists>vt. map_of d (center_key ?ta ?tb) = Some vt
                 \<and> place_unit r c color (d, g) =
                     Inr (AList.update (center_key ?ta ?tb) (vt @ [target_label color])
                            (AList.update (artifact_key ?a ?b opt) [artifact_label color] d),
                          g3))"
    using pu vt by (simp split: option.split)
  from asq(1) tsq(1) sh ms cs show ?thesis unfolding Let_def by blast
qed

lemma init_grid_1_1:
  "init_grid 1 1 = [(''0.5_0.5'', []), (''0.0_0.0'', []), (''0.0_1.0'', []), (''1.0_0.0'', []), (''1.0_1.0'', [])]"
  by code_simp

theorem place_unit_first_empty_corner_witness:
  "\<exists>g3. place_unit 1 1 ''blue'' (init_grid 1 1, \<lambda>n. 0) =
     Inr ([(''0.5_0.5'', [''target_blue'']), (''0.0_0.0'', [''artifact_blue'']),
           (''0.0_1.0'', []), (''1.0_0.0'', []), (''1.0_1.0'', [])], g3)"
proof -
  have h: "(1::int) \<le> 1" by simp
  from place_unit_first_empty_corner [OF h h refl, of "\<lambda>n. 0" "''blue''"]
  obtain asq g1 tsq g2 opts g3 where
    f1: "randint 0 (1 * 1 - 1) (\<lambda>n. 0) = Inr (asq, g1)" and
    f2: "randint 0 (1 * 1 - 1) g1 = Inr (tsq, g2)" and
    f3: "shuffle corner_options g2 = (opts, g3)" and
    f4: "let a = asq div 1; b = asq mod 1; ta = tsq div 1; tb = tsq mod 1 in
         mset (map (artifact_key a b) opts)
           = mset [corner_key a b, corner_key (a + 1) b, corner_key a (b + 1),
                   corner_key (a + 1) (b + 1)]
       \<and> (case find (\<lambda>opt. map_of (init_grid 1 1) (artifact_key a b opt) = Some []) opts of
            None \<Rightarrow> place_unit 1 1 ''blue'' (init_grid 1 1, \<lambda>n. 0) = Inr (init_grid 1 1, g3)
          | Some opt \<Rightarrow>
              (\<exists>vt. map_of (init_grid 1 1) (center_key ta tb) = Some vt
                 \<and> place_unit 1 1 ''blue'' (init_grid 1 1, \<lambda>n. 0) =
                     Inr (AList.update (center_key ta tb) (vt @ [target_label ''blue''])
                            (AList.update (artifact_key a b opt) [artifact_label ''blue'']
                               (init_grid 1 1)),
                          g3)))"
    by blast
  from f1 have a: "asq = 0" "g1 = (\<lambda>n. 0)" by (auto simp: randint_def rng_next_def)
  from f2 have t: "tsq = 0" "g2 = (\<lambda>n. 0)" by (auto simp: randint_def rng_next_def a)
  from f3 have o: "opts = [(0, 0), (0, 2), (2, 2), (2, 0)]"
    by (auto simp: t shuffle_def corner_options_def eval_nat_numeral Let_def rng_next_def)
  have k: "artifact_key 0 0 (0, 0) = ''0.0_0.0''" "center_key 0 0 = ''0.5_0.5''"
    by (simp_all add: artifact_key_def center_key_def coord_key_def repr_float_def
        float_of_int_def plus_half_def str_nat.simps digit_char_def)
  from f4 show ?thesis
    by (simp add: a t o k init_grid_1_1 artifact_label_def target_label_def)
qed

section \<open>The analyzer's loop\<close>

lemma analyze_iteration_not_success:
  assumes "not_success_marked fs rp"
  shows "analyze_iteration float_of fs rp st =
           Inr (if counted fs rp then st\<lparr>valid_experiments := valid_experiments st + 1\<rparr> else st)"
  using assms
  by (auto simp: not_success_marked_def analyze_iteration_def counted_def read_lines_def
      path_exists_def Let_def split: option.splits node.splits)


lemma analyze_iterations_not_success:
  assumes "\<forall>i\<in>set is. not_success_marked fs (path_of i)"
  shows "\<exists>st'. analyze_iterations float_of fs path_of is st = Inr st'
           \<and> success_count st' = success_count st
           \<and> total_action_time st' = total_action_time st
           \<and> total_token_usage st' = total_token_usage st
           \<and> total_api_queries st' = total_api_queries st
           \<and> valid_experiments st' = valid_experiments st + int (length (filter (\<lambda>i. counted fs (path_of i)) is))"
  using assms
proof (induction "is" arbitrary: st)
  case Nil
  show ?case by simp
next
  case (Cons i "is")
  let ?st1 = "if counted fs (path_of i) then st\<lparr>valid_experiments := valid_experiments st + 1\<rparr> else st"
  from Cons.prems have "not_success_marked fs (path_of i)" by simp
  then have s: "analyze_iteration float_of fs (path_of i) st = Inr ?st1"
    by (rule analyze_iteration_not_success)
  from Cons.prems have "\<forall>i\<in>set is. not_success_marked fs (path_of i)" by simp
  from Cons.IH [OF this, of ?st1] obtain st' where
    r: "analyze_iterations float_of fs path_of is ?st1 = Inr st'"
       "success_count st' = success_count ?st1"
       "total_action_time st' = total_action_time ?st1"
       "total_token_usage st' = total_token_usage ?st1"
       "total_api_queries st' = total_api_queries ?st1"
       "valid_experiments st' = valid_experiments ?st1 + int (length (filter (\<lambda>i. counted fs (path_of i)) is))"
    by blast
  have "analyze_iterations float_of fs path_of (i # is) st = Inr st'"
    using r(1) by (simp add: s)
  with r(2-6) show ?case by (cases "counted fs (path_of i)") simp_all
qed

lemma summarize_ok:
  "summarize st =
     Inr \<lparr>success_rate = of_int (success_count st) / of_int (max (valid_experiments st) 1),
          avg_action_time = total_action_time st / of_int (max (success_count st) 1),
          avg_token_usage = total_token_usage st / of_int (max (success_count st) 1),
          avg_api_queries = of_int (total_api_queries st) / of_int (max (success_count st) 1),
          total_experiments = valid_experiments st\<rparr>"
proof -
  have "(of_int (max (valid_experiments st) 1) :: real) \<noteq> 0"
       "(of_int (max (success_count st) 1) :: real) \<noteq> 0"
    by (simp_all add: max_def)
  then show ?thesis by (simp add: summarize_def true_div_def)
qed

section \<open>Example paths\<close>

lemma example_dir_0: "example_dir 0 = ''/data/env_pg_state_2_2/pg_state0/CMAS_wo_any_dialogue_history''"
  by code_simp

section \<open>Configurations without a success\<close>

lemma read_action_time_fields:
  "read_action_time float_of fs rp st = Inr st' \<Longrightarrow>
   success_count st' = success_count st \<and> valid_experiments st' = valid_experiments st"
  by (auto simp: read_action_time_def split: if_splits sum.splits option.splits)

lemma read_tokens_fields:
  "read_tokens float_of fs rp st = Inr st' \<Longrightarrow>
   success_count st' = success_count st \<and> valid_experiments st' = valid_experiments st"
  by (auto simp: read_tokens_def split: if_splits sum.splits option.splits)

lemma read_success_fields:
  assumes "read_success float_of fs rp st = Inr st'"
  shows "success_count st' = success_count st + 1 \<and> valid_experiments st' = valid_experiments st"
proof -
  from assms obtain st1 where
    a: "read_action_time float_of fs rp (st\<lparr>success_count := success_count st + 1\<rparr>) = Inr st1"
    and b: "read_tokens float_of fs rp st1 = Inr st'"
    by (auto simp: read_success_def split: sum.splits)
  from read_action_time_fields [OF a] read_tokens_fields [OF b] show ?thesis by simp
qed

lemma success_marked_read:
  "path_exists fs (success_file rp) \<Longrightarrow> read_lines fs (success_file rp) = Inr ls \<Longrightarrow>
   success_marked fs rp = (path_exists fs rp \<and> strip (readline ls) = ''success'')"
  by (auto simp: success_marked_def read_lines_def split: option.splits node.splits)

lemma analyze_iteration_fields:
  assumes "analyze_iteration float_of fs rp st = Inr st'"
  shows "success_count st' = success_count st + (if success_marked fs rp then 1 else 0)
       \<and> valid_experiments st' = valid_experiments st + (if counted fs rp then 1 else 0)"
proof (cases "counted fs rp")
  case False
  then have "st' = st" using assms
    by (auto simp: analyze_iteration_def counted_def split: if_splits)
  moreover from False have "\<not> success_marked fs rp"
    by (auto simp: counted_def success_marked_def path_exists_def split: option.splits)
  ultimately show ?thesis using False by simp
next
  case True
  then have e: "path_exists fs rp" "path_exists fs (success_file rp)" by (simp_all add: counted_def)
  with assms obtain ls where ls: "read_lines fs (success_file rp) = Inr ls"
    by (auto simp: analyze_iteration_def split: sum.splits)
  note sm = success_marked_read [OF e(2) ls]
  show ?thesis
  proof (cases "strip (readline ls) = ''success''")
    case s: True
    with assms e ls obtain st1 where
      st1: "read_success float_of fs rp st = Inr st1"
           "st' = st1\<lparr>valid_experiments := valid_experiments st1 + 1\<rparr>"
      by (auto simp: analyze_iteration_def Let_def split: sum.splits)
    from read_success_fields [OF st1(1)] st1(2) s e True sm show ?thesis by simp
  next
    case s: False
    with assms e ls have "st' = st\<lparr>valid_experiments := valid_experiments st + 1\<rparr>"
      by (auto simp: analyze_iteration_def Let_def)
    with s e True sm show ?thesis by simp
  qed
qed

lemma analyze_iterations_fields:
  "analyze_iterations float_of fs path_of is st = Inr st' \<Longrightarrow>
   success_count st' = success_count st + int (length (filter (\<lambda>i. success_marked fs (path_of i)) is))
   \<and> valid_experiments st' = valid_experiments st + int (length (filter (\<lambda>i. counted fs (path_of i)) is))"
proof (induction "is" arbitrary: st)
  case Nil
  then show ?case by simp
next
  case (Cons i "is")
  then obtain st1 where s: "analyze_iteration float_of fs (path_of i) st = Inr st1"
    "analyze_iterations float_of fs path_of is st1 = Inr st'"
    by (auto split: sum.splits)
  from analyze_iteration_fields [OF s(1)] Cons.IH [OF s(2)] show ?case by simp
qed

lemma analyze_configuration_no_success:
  assumes "\<forall>i\<in>set (py_range 10). not_success_marked fs (result_path data_dir r c fw dm i)"
  shows "analyze_configuration float_of fs data_dir r c fw dm =
     Inr \<lparr>success_rate = 0, avg_action_time = 0, avg_token_usage = 0, avg_api_queries = 0,
          total_experiments =
            int (length (filter (\<lambda>i. counted fs (result_path data_dir r c fw dm i)) (py_range 10)))\<rparr>"
proof -
  from analyze_iterations_not_success [OF assms, of float_of initial_stats] obtain st where
    st: "analyze_iterations float_of fs (result_path data_dir r c fw dm) (py_range 10) initial_stats = Inr st"
      "success_count st = 0" "total_action_time st = 0" "total_token_usage st = 0"
      "total_api_queries st = 0"
      "valid_experiments st =
         int (length (filter (\<lambda>i. counted fs (result_path data_dir r c fw dm i)) (py_range 10)))"
    by (auto simp: initial_stats_def)
  show ?thesis
    by (simp add: analyze_configuration_def st(1) summarize_ok st(2-5)) (simp add: st(6))
qed









section \<open>Counting successes and experiments\<close>




text \<open>
  C1, as the code has it. An iteration is counted in \<open>valid_experiments\<close> exactly when its
  result directory and its \<open>success_failure.txt\<close> both exist, whatever the status file
  says: the increment stands inside the test for the status file. The reported
  \<open>total_experiments\<close> is the number of such iterations in \<open>[0, 10)\<close>.
\<close>

theorem valid_experiments_counts_status_files:
  "(\<forall>st st'. analyze_iteration float_of fs rp st = Inr st' \<longrightarrow>
      valid_experiments st' = valid_experiments st
        + (if path_exists fs rp \<and> path_exists fs (success_file rp) then 1 else 0))
   \<and> (\<forall>m. analyze_configuration float_of fs data_dir r c fw dm = Inr m \<longrightarrow>
        total_experiments m =
          int (length (filter (\<lambda>i. path_exists fs (result_path data_dir r c fw dm i)
                 \<and> path_exists fs (success_file (result_path data_dir r c fw dm i)))
                (py_range 10))))"
proof (intro conjI allI impI)
  fix st st'
  assume "analyze_iteration float_of fs rp st = Inr st'"
  from analyze_iteration_fields [OF this]
  show "valid_experiments st' = valid_experiments st
        + (if path_exists fs rp \<and> path_exists fs (success_file rp) then 1 else 0)"
    by (simp add: counted_def)
next
  fix m
  assume a: "analyze_configuration float_of fs data_dir r c fw dm = Inr m"
  then obtain st where st: "analyze_iterations float_of fs (result_path data_dir r c fw dm)
      (py_range 10) initial_stats = Inr st" "summarize st = Inr m"
    by (auto simp: analyze_configuration_def split: sum.splits)
  from st(2) have "total_experiments m = valid_experiments st" by (auto simp: summarize_ok)
  with analyze_iterations_fields [OF st(1)]
  show "total_experiments m =
          int (length (filter (\<lambda>i. path_exists fs (result_path data_dir r c fw dm i)
                 \<and> path_exists fs (success_file (result_path data_dir r c fw dm i)))
                (py_range 10)))"
    by (simp add: initial_stats_def counted_def)
qed

theorem valid_experiments_counts_status_files_witness:
  "\<exists>st'. analyze_iteration example_float fs_failure (example_dir 3) initial_stats = Inr st'
     \<and> valid_experiments st' = 1"
proof -
  have n: "not_success_marked fs_failure (example_dir 3)" by code_simp
  have c: "path_exists fs_failure (example_dir 3)
      \<and> path_exists fs_failure (success_file (example_dir 3))" by code_simp
  from analyze_iteration_not_success [OF n, of example_float initial_stats]
  obtain st' where
    e: "analyze_iteration example_float fs_failure (example_dir 3) initial_stats = Inr st'"
    by blast
  from valid_experiments_counts_status_files
      [of example_float fs_failure "example_dir 3", THEN conjunct1] e c
  have "valid_experiments st' = valid_experiments initial_stats + 1"
    by simp
  with e show ?thesis by (simp add: initial_stats_def)
qed

text \<open>
  C1 as stated fails: in \<open>fs_dir_only\<close> the result directory of iteration 0 exists and holds
  no file; the iteration leaves the counters as they were and the configuration reports
  \<open>total_experiments = 0\<close>.
\<close>

theorem directory_without_status_not_counted:
  "path_exists fs_dir_only (example_dir 0)
   \<and> analyze_iteration example_float fs_dir_only (example_dir 0) initial_stats = Inr initial_stats
   \<and> analyze_configuration example_float fs_dir_only ''/data'' 2 2 ''CMAS''
        ''_wo_any_dialogue_history'' =
       Inr \<lparr>success_rate = 0, avg_action_time = 0, avg_token_usage = 0, avg_api_queries = 0,
            total_experiments = 0\<rparr>"
proof -
  have e: "path_exists fs_dir_only (example_dir 0)" by code_simp
  have n: "not_success_marked fs_dir_only (example_dir 0)" by code_simp
  have c: "\<not> counted fs_dir_only (example_dir 0)" by code_simp
  have i: "analyze_iteration example_float fs_dir_only (example_dir 0) initial_stats = Inr initial_stats"
    using analyze_iteration_not_success [OF n, of example_float initial_stats] c by simp
  have "list_all (\<lambda>i. not_success_marked fs_dir_only (example_dir i)) (py_range 10)"
    by code_simp
  then have h: "\<forall>i\<in>set (py_range 10). not_success_marked fs_dir_only
      (result_path ''/data'' 2 2 ''CMAS'' ''_wo_any_dialogue_history'' i)"
    by (simp add: list_all_iff example_dir_def)
  have "filter (\<lambda>i. counted fs_dir_only (example_dir i)) (py_range 10) = []"
    by code_simp
  then have "int (length (filter (\<lambda>i. counted fs_dir_only
      (result_path ''/data'' 2 2 ''CMAS'' ''_wo_any_dialogue_history'' i)) (py_range 10))) = 0"
    by (simp add: example_dir_def)
  with analyze_configuration_no_success [OF h, of example_float] e i show ?thesis by simp
qed

section \<open>Formatting numbers\<close>








section \<open>The order of the report\<close>










section \<open>The rendered report\<close>




section \<open>Paths of the suite\<close>







section \<open>The loops of the suite generator\<close>




section \<open>A run of the suite generator\<close>



end
